theory Spec2Isabelle
  imports Main "HOL-Library.Char_ord" "HOL-Library.List_Lexorder"
begin

section \<open>The JavaScript values the engine computes with\<close>

text \<open>
  The engine of \<^verbatim>\<open>App.js\<close> works on strings, numbers and \<^verbatim>\<open>Date\<close> objects.
  Numbers that occur are integers, \<^verbatim>\<open>Infinity\<close> (the default of an absent quota) and
  \<^verbatim>\<open>NaN\<close> (every getter of an Invalid Date); a \<^verbatim>\<open>Date\<close> is its time value in
  milliseconds since the epoch, or Invalid Date. The only exception the engine can raise is
  the \<^verbatim>\<open>RangeError\<close> of \<^verbatim>\<open>toISOString\<close> on an Invalid Date.
\<close>

datatype js_error = RangeError

datatype jsnum = Num int | Infinity

datatype JSDate = Invalid_Date | Time_Value int

definition bind_js :: "js_error + 'a \<Rightarrow> ('a \<Rightarrow> js_error + 'b) \<Rightarrow> js_error + 'b" where
  "bind_js m f = (case m of Inl e \<Rightarrow> Inl e | Inr x \<Rightarrow> f x)"

text \<open>\<^verbatim>\<open>max - used\<close> for a maximum that is an integer or \<^verbatim>\<open>Infinity\<close>.\<close>

fun js_minus :: "jsnum \<Rightarrow> int \<Rightarrow> jsnum" where
  "js_minus (Num m) n = Num (m - n)"
| "js_minus Infinity n = Infinity"

text \<open>\<^verbatim>\<open>x <= 0\<close>, where \<^verbatim>\<open>x\<close> may be \<^verbatim>\<open>undefined\<close> (\<open>None\<close>): false then.\<close>

fun js_le_zero :: "jsnum option \<Rightarrow> bool" where
  "js_le_zero None = False"
| "js_le_zero (Some Infinity) = False"
| "js_le_zero (Some (Num n)) = (n \<le> 0)"

subsection \<open>Calendar arithmetic of ECMAScript's Date\<close>

text \<open>
  The abstract operations of the language standard (section "Date Objects"), on day
  numbers. \<open>YearFromDay d\<close> is the largest year \<open>y\<close> with \<open>DayFromYear y \<le> d\<close>, found by
  a search upwards from a year that is not after it.
\<close>

definition msPerDay :: int where
  "msPerDay = 86400000"

definition Day :: "int \<Rightarrow> int" where
  "Day t = t div msPerDay"

definition TimeWithinDay :: "int \<Rightarrow> int" where
  "TimeWithinDay t = t mod msPerDay"

definition DayFromYear :: "int \<Rightarrow> int" where
  "DayFromYear y =
     365 * (y - 1970) + (y - 1969) div 4 - (y - 1901) div 100 + (y - 1601) div 400"

definition DaysInYear :: "int \<Rightarrow> int" where
  "DaysInYear y =
     (if y mod 4 \<noteq> 0 then 365 else if y mod 100 \<noteq> 0 then 366
      else if y mod 400 \<noteq> 0 then 365 else 366)"

definition InLeapYear :: "int \<Rightarrow> bool" where
  "InLeapYear y = (DaysInYear y = 366)"

text \<open>
  Consecutive years start \<open>DaysInYear\<close> days apart, so the search for the year of a
  day terminates.
\<close>

lemma DaysInYear_ge: "365 \<le> DaysInYear y"
  by (simp add: DaysInYear_def)

lemma div_succ:
  fixes x c :: int
  assumes "0 < c"
  shows "(x + 1) div c = x div c + (if (x + 1) mod c = 0 then 1 else 0)"
proof (cases "(x + 1) mod c = 0")
  case True
  then obtain q where q: "x + 1 = c * q" by (metis mod_eq_0_iff_dvd dvd_def)
  then have x: "x = c * (q - 1) + (c - 1)" by (simp add: algebra_simps)
  have "x div c = q - 1"
    by (subst x) (use assms in \<open>simp add: div_pos_pos_trivial\<close>)
  moreover have "(x + 1) div c = q" using q assms by simp
  ultimately show ?thesis using True by simp
next
  case False
  have "x mod c \<noteq> c - 1"
  proof
    assume "x mod c = c - 1"
    then have "(x + 1) mod c = 0"
      by (metis add.commute diff_add_cancel mod_add_right_eq mod_self)
    with False show False by simp
  qed
  moreover have "0 \<le> x mod c" "x mod c < c" using assms by simp_all
  ultimately have r: "x mod c + 1 < c" by linarith
  have "x + 1 = c * (x div c) + (x mod c + 1)" by simp
  then have "(x + 1) div c = x div c"
    using r \<open>0 \<le> x mod c\<close> assms
    by (metis add.commute add_nonneg_nonneg div_mult_self2 div_pos_pos_trivial less_irrefl zero_le_one add.left_neutral)
  with False show ?thesis by simp
qed

lemma mod_shift:
  fixes y c k :: int
  shows "(y - c * k) mod c = y mod c"
proof -
  have "y - c * k = y + c * (- k)" by simp
  then show ?thesis by (simp only: mod_mult_self2)
qed

lemma div_succ_shift:
  fixes y c k q :: int
  assumes "0 < c"
  shows "(y + 1 - (c * q + 1)) div c = (y - (c * q + 1)) div c + (if y mod c = 0 then 1 else 0)"
proof -
  have e: "y + 1 - (c * q + 1) = (y - (c * q + 1)) + 1" by simp
  have m: "((y - (c * q + 1)) + 1) mod c = y mod c"
  proof -
    have "(y - (c * q + 1)) + 1 = y - c * q" by simp
    then show ?thesis by (simp only: mod_shift)
  qed
  show ?thesis
    unfolding e using div_succ [OF assms, of "y - (c * q + 1)"] by (simp only: m)
qed

lemma DayFromYear_Suc: "DayFromYear (y + 1) = DayFromYear y + DaysInYear y"
proof -
  define A where "A = (y - 1969) div 4"
  define B where "B = (y - 1901) div 100"
  define C where "C = (y - 1601) div 400"
  have a: "(y + 1 - 1969) div 4 = A + (if y mod 4 = 0 then 1 else 0)"
    unfolding A_def using div_succ_shift [of 4 y 492] by simp
  have b: "(y + 1 - 1901) div 100 = B + (if y mod 100 = 0 then 1 else 0)"
    unfolding B_def using div_succ_shift [of 100 y 19] by simp
  have c: "(y + 1 - 1601) div 400 = C + (if y mod 400 = 0 then 1 else 0)"
    unfolding C_def using div_succ_shift [of 400 y 4] by simp
  have d: "y mod 4 = 0" if "y mod 100 = 0"
  proof -
    have "(100::int) dvd y" using that by (simp add: mod_eq_0_iff_dvd)
    moreover have "(4::int) dvd 100" by simp
    ultimately have "(4::int) dvd y" by (rule dvd_trans [rotated])
    then show ?thesis by (simp add: mod_eq_0_iff_dvd)
  qed
  have e: "y mod 100 = 0" if "y mod 400 = 0"
  proof -
    have "(400::int) dvd y" using that by (simp add: mod_eq_0_iff_dvd)
    moreover have "(100::int) dvd 400" by simp
    ultimately have "(100::int) dvd y" by (rule dvd_trans [rotated])
    then show ?thesis by (simp add: mod_eq_0_iff_dvd)
  qed
  have l: "DayFromYear (y + 1) = 365 * (y + 1 - 1970) + (A + (if y mod 4 = 0 then 1 else 0))
      - (B + (if y mod 100 = 0 then 1 else 0)) + (C + (if y mod 400 = 0 then 1 else 0))"
    unfolding DayFromYear_def by (simp only: a b c)
  have r: "DayFromYear y = 365 * (y - 1970) + A - B + C"
    unfolding DayFromYear_def A_def B_def C_def by (rule refl)
  show ?thesis
    unfolding l r DaysInYear_def using d e by auto
qed

function year_search :: "int \<Rightarrow> int \<Rightarrow> int" where
  "year_search d y = (if DayFromYear (y + 1) \<le> d then year_search d (y + 1) else y)"
  by pat_completeness auto
termination
proof (relation "measure (\<lambda>(d, y). nat (d - DayFromYear y))")
  show "wf (measure (\<lambda>(d, y). nat (d - DayFromYear y)))"
    by simp
next
  fix d y :: int
  assume "DayFromYear (y + 1) \<le> d"
  moreover have "DayFromYear y < DayFromYear (y + 1)"
    using DaysInYear_ge [of y] by (simp only: DayFromYear_Suc)
  ultimately show "((d, y + 1), (d, y)) \<in> measure (\<lambda>(d, y). nat (d - DayFromYear y))"
    by simp
qed

definition YearFromDay :: "int \<Rightarrow> int" where
  "YearFromDay d =
     year_search d (if 0 \<le> d then 1970 + d div 366 else 1969 + d div 365)"

text \<open>The number of days of the year before month \<open>m\<close> (0 = January).\<close>

definition month_offset :: "bool \<Rightarrow> int \<Rightarrow> int" where
  "month_offset leap m =
     (if m \<le> 0 then 0 else if m = 1 then 31
      else (if leap then 1 else 0) +
        (if m = 2 then 59 else if m = 3 then 90 else if m = 4 then 120
         else if m = 5 then 151 else if m = 6 then 181 else if m = 7 then 212
         else if m = 8 then 243 else if m = 9 then 273 else if m = 10 then 304
         else if m = 11 then 334 else 365))"

definition DayWithinYear :: "int \<Rightarrow> int" where
  "DayWithinYear d = d - DayFromYear (YearFromDay d)"

text \<open>The month (0 = January) in which day \<open>w\<close> of a year lies.\<close>

definition MonthInYear :: "bool \<Rightarrow> int \<Rightarrow> int" where
  "MonthInYear leap w =
     (if w < month_offset leap 1 then 0 else if w < month_offset leap 2 then 1
      else if w < month_offset leap 3 then 2 else if w < month_offset leap 4 then 3
      else if w < month_offset leap 5 then 4 else if w < month_offset leap 6 then 5
      else if w < month_offset leap 7 then 6 else if w < month_offset leap 8 then 7
      else if w < month_offset leap 9 then 8 else if w < month_offset leap 10 then 9
      else if w < month_offset leap 11 then 10 else 11)"

definition MonthFromDay :: "int \<Rightarrow> int" where
  "MonthFromDay d = MonthInYear (InLeapYear (YearFromDay d)) (DayWithinYear d)"

definition DateFromDay :: "int \<Rightarrow> int" where
  "DateFromDay d =
     DayWithinYear d - month_offset (InLeapYear (YearFromDay d)) (MonthFromDay d) + 1"

definition WeekDay :: "int \<Rightarrow> int" where
  "WeekDay d = (d + 4) mod 7"

text \<open>\<open>MakeDay\<close>: months outside 0..11 carry into the year, any day number is accepted.\<close>

definition MakeDay :: "int \<Rightarrow> int \<Rightarrow> int \<Rightarrow> int" where
  "MakeDay year month dt =
     (let ym = year + month div 12; mn = month mod 12
      in DayFromYear ym + month_offset (InLeapYear ym) mn + dt - 1)"

definition DaysInMonth :: "int \<Rightarrow> int \<Rightarrow> int" where
  "DaysInMonth y m = MakeDay y (m + 1) 1 - MakeDay y m 1"

definition TimeClip :: "int \<Rightarrow> JSDate" where
  "TimeClip t = (if \<bar>t\<bar> \<le> 8640000000000000 then Time_Value t else Invalid_Date)"

subsection \<open>The Date methods the engine calls\<close>

text \<open>
  The host's time zone is a parameter \<open>tza\<close>: the offset of local time from UTC in
  milliseconds (the standard's LocalTZA), taken as constant (a zone without daylight-saving
  transitions). Getters read local time; \<^verbatim>\<open>toISOString\<close> writes UTC.
\<close>

definition getFullYear :: "int \<Rightarrow> int \<Rightarrow> int" where
  "getFullYear tza t = YearFromDay (Day (t + tza))"

definition getMonth :: "int \<Rightarrow> int \<Rightarrow> int" where
  "getMonth tza t = MonthFromDay (Day (t + tza))"

definition getDate :: "int \<Rightarrow> int \<Rightarrow> int" where
  "getDate tza t = DateFromDay (Day (t + tza))"

definition getDay :: "int \<Rightarrow> int \<Rightarrow> int" where
  "getDay tza t = WeekDay (Day (t + tza))"

text \<open>\<^verbatim>\<open>d.setDate(dt)\<close> on a valid date: the new time value, clipped.\<close>

definition setDate :: "int \<Rightarrow> int \<Rightarrow> int \<Rightarrow> JSDate" where
  "setDate tza t dt =
     TimeClip (MakeDay (getFullYear tza t) (getMonth tza t) dt * msPerDay
                 + TimeWithinDay (t + tza) - tza)"

text \<open>\<^verbatim>\<open>new Date(year, month, date)\<close>: local midnight; years 0..99 mean 1900..1999.\<close>

definition Date_ymd :: "int \<Rightarrow> int \<Rightarrow> int \<Rightarrow> int \<Rightarrow> JSDate" where
  "Date_ymd tza year month dt =
     (let yr = (if 0 \<le> year \<and> year \<le> 99 then 1900 + year else year)
      in TimeClip (MakeDay yr month dt * msPerDay - tza))"

text \<open>The digits of \<open>n\<close>, zero-padded (and cut) to the width \<open>w\<close>.\<close>

definition digit_char :: "int \<Rightarrow> char" where
  "digit_char n = char_of (48 + n)"

fun pad :: "nat \<Rightarrow> int \<Rightarrow> string" where
  "pad 0 n = []"
| "pad (Suc w) n = pad w (n div 10) @ [digit_char (n mod 10)]"

definition format_year :: "int \<Rightarrow> string" where
  "format_year y =
     (if 0 \<le> y \<and> y \<le> 9999 then pad 4 y
      else (if y < 0 then ''-'' else ''+'') @ pad 6 \<bar>y\<bar>)"

text \<open>
  The part of \<^verbatim>\<open>toISOString()\<close> before its \<^verbatim>\<open>T\<close>: year, month and day of the UTC
  day \<open>d\<close>; years outside 0..9999 are written with a sign and six digits.
\<close>

definition iso_date :: "int \<Rightarrow> string" where
  "iso_date d =
     format_year (YearFromDay d) @ ''-'' @ pad 2 (MonthFromDay d + 1) @ ''-''
       @ pad 2 (DateFromDay d)"

text \<open>
  Parsing \<^verbatim>\<open>YYYY-MM-DD\<close>, the date part of the standard's date-time format. A string
  that is not ten characters of this shape naming a day of the calendar is taken to give
  Invalid Date (the standard leaves other strings to the implementation).
\<close>

definition is_digit :: "char \<Rightarrow> bool" where
  "is_digit c = (CHR ''0'' \<le> c \<and> c \<le> CHR ''9'')"

definition digit_val :: "char \<Rightarrow> int" where
  "digit_val c = of_char c - 48"

fun parse_ymd :: "string \<Rightarrow> (int \<times> int \<times> int) option" where
  "parse_ymd [y1, y2, y3, y4, h1, m1, m2, h2, d1, d2] =
     (if h1 = CHR ''-'' \<and> h2 = CHR ''-'' \<and> list_all is_digit [y1, y2, y3, y4, m1, m2, d1, d2]
      then
        (let y = 1000 * digit_val y1 + 100 * digit_val y2 + 10 * digit_val y3 + digit_val y4;
             m = 10 * digit_val m1 + digit_val m2;
             d = 10 * digit_val d1 + digit_val d2
         in if 1 \<le> m \<and> m \<le> 12 \<and> 1 \<le> d \<and> d \<le> DaysInMonth y (m - 1)
            then Some (y, m, d) else None)
      else None)"
| "parse_ymd _ = None"

section \<open>The data model\<close>

record DateWindow =
  window_start :: string
  window_end :: string

record MaxDays =
  max_days :: int

record MaxWeeks =
  max_weeks :: int

record Quotas =
  weekly :: "MaxDays option"
  weeks_per_month :: "MaxWeeks option"
  total :: "MaxDays option"

text \<open>
  \<open>days_of_week\<close> is \<open>None\<close> when \<^verbatim>\<open>eligibility_filters\<close> or its \<^verbatim>\<open>days_of_week\<close>
  is absent.
\<close>

record LeaveRules =
  date_window :: DateWindow
  days_of_week :: "int list option"
  quotas :: Quotas

record LeaveType =
  id_lt :: string
  name :: string
  color :: string
  rules :: LeaveRules
  notes_lt :: "string option"

record Assignment =
  id_a :: string
  date :: string
  leaveTypeId :: string
  createdAt :: string
  updatedAt :: string

record DayInfo =
  date_di :: string
  isCurrentMonth :: bool
  assignment :: "Assignment option"
  eligibleLeaves :: "string list"

text \<open>The result of \<^verbatim>\<open>calculateQuotas\<close>; a field is \<open>None\<close> in the empty objects.\<close>

record QuotaUsed =
  weekly_used :: "int option"
  weeksThisMonth_used :: "int option"
  total_used :: "int option"

record QuotaRemaining =
  weekly_remaining :: "jsnum option"
  weeksThisMonth_remaining :: "jsnum option"
  total_remaining :: "jsnum option"

record QuotaResult =
  used :: QuotaUsed
  remaining :: QuotaRemaining

record Eligibility =
  eligible :: bool
  reason :: "string option"

section \<open>Utility functions\<close>

definition formatDate :: "JSDate \<Rightarrow> js_error + string" where
  "formatDate d =
     (case d of Invalid_Date \<Rightarrow> Inl RangeError | Time_Value t \<Rightarrow> Inr (iso_date (Day t)))"

text \<open>\<^verbatim>\<open>new Date(dateStr + 'T00:00:00')\<close>: a date-time without offset is local time.\<close>

definition parseDate :: "int \<Rightarrow> string \<Rightarrow> JSDate" where
  "parseDate tza dateStr =
     (case parse_ymd dateStr of
        None \<Rightarrow> Invalid_Date
      | Some (y, m, d) \<Rightarrow> TimeClip (MakeDay y (m - 1) d * msPerDay - tza))"

text \<open>Every method of an Invalid Date gives NaN, and a Date made from NaN is invalid.\<close>

definition getWeekStart :: "int \<Rightarrow> JSDate \<Rightarrow> JSDate" where
  "getWeekStart tza d =
     (case d of
        Invalid_Date \<Rightarrow> Invalid_Date
      | Time_Value t \<Rightarrow>
          (let day = getDay tza t;
               diff = getDate tza t - day + (if day = 0 then - 6 else 1)
           in setDate tza t diff))"

definition getWeekEnd :: "int \<Rightarrow> JSDate \<Rightarrow> JSDate" where
  "getWeekEnd tza d =
     (case getWeekStart tza d of
        Invalid_Date \<Rightarrow> Invalid_Date
      | Time_Value s \<Rightarrow> TimeClip (s + 6 * 24 * 60 * 60 * 1000))"

definition getMonthStart :: "int \<Rightarrow> JSDate \<Rightarrow> JSDate" where
  "getMonthStart tza d =
     (case d of
        Invalid_Date \<Rightarrow> Invalid_Date
      | Time_Value t \<Rightarrow> Date_ymd tza (getFullYear tza t) (getMonth tza t) 1)"

definition getMonthEnd :: "int \<Rightarrow> JSDate \<Rightarrow> JSDate" where
  "getMonthEnd tza d =
     (case d of
        Invalid_Date \<Rightarrow> Invalid_Date
      | Time_Value t \<Rightarrow> Date_ymd tza (getFullYear tza t) (getMonth tza t + 1) 0)"

text \<open>Strings compare by their code units, lexicographically.\<close>

definition isDateInRange :: "string \<Rightarrow> string \<Rightarrow> string \<Rightarrow> bool" where
  "isDateInRange d s e = (s \<le> d \<and> d \<le> e)"

section \<open>Quota calculations\<close>

text \<open>A \<^verbatim>\<open>Set\<close> of strings, as the list of its members in insertion order.\<close>

definition Set_add :: "string \<Rightarrow> string list \<Rightarrow> string list" where
  "Set_add x S = (if x \<in> set S then S else S @ [x])"

text \<open>
  The \<^verbatim>\<open>forEach\<close> that collects the week starts of the month's assignments; it raises
  when an assignment's date does not parse.
\<close>

fun weeksUsed_loop :: "int \<Rightarrow> Assignment list \<Rightarrow> string list \<Rightarrow> js_error + string list" where
  "weeksUsed_loop tza [] S = Inr S"
| "weeksUsed_loop tza (a # as) S =
     bind_js (formatDate (getWeekStart tza (parseDate tza (date a))))
       (\<lambda>w. weeksUsed_loop tza as (Set_add w S))"

text \<open>
  \<open>now\<close> is the clock's reading, used when no target date is given (an absent or empty
  string is falsy).
\<close>

definition calculateQuotas ::
  "int \<Rightarrow> int \<Rightarrow> LeaveType list \<Rightarrow> Assignment list \<Rightarrow> string \<Rightarrow> string option
     \<Rightarrow> js_error + QuotaResult" where
  "calculateQuotas tza now leaveTypes assignments ltId targetDate =
     (case find (\<lambda>lt. id_lt lt = ltId) leaveTypes of
        None \<Rightarrow>
          Inr \<lparr>used = \<lparr>weekly_used = None, weeksThisMonth_used = None, total_used = None\<rparr>,
               remaining = \<lparr>weekly_remaining = None, weeksThisMonth_remaining = None,
                            total_remaining = None\<rparr>\<rparr>
      | Some leaveType \<Rightarrow>
          (let leaveAssignments = filter (\<lambda>a. leaveTypeId a = ltId) assignments;
               targetDateObj =
                 (case targetDate of
                    None \<Rightarrow> Time_Value now
                  | Some s \<Rightarrow> if s = [] then Time_Value now else parseDate tza s);
               weekStart = getWeekStart tza targetDateObj;
               weekEnd = getWeekEnd tza targetDateObj
           in bind_js (formatDate weekStart) (\<lambda>weekStartStr.
              bind_js (formatDate weekEnd) (\<lambda>weekEndStr.
              let usedThisWeek =
                    length (filter (\<lambda>a. isDateInRange (date a) weekStartStr weekEndStr)
                      leaveAssignments);
                  monthStart = getMonthStart tza targetDateObj;
                  monthEnd = getMonthEnd tza targetDateObj
              in bind_js (formatDate monthStart) (\<lambda>monthStartStr.
                 bind_js (formatDate monthEnd) (\<lambda>monthEndStr.
                 let monthlyAssignments =
                       filter (\<lambda>a. isDateInRange (date a) monthStartStr monthEndStr)
                         leaveAssignments
                 in bind_js (weeksUsed_loop tza monthlyAssignments []) (\<lambda>weeksUsedInMonth.
                    let weeksUsedThisMonth = length weeksUsedInMonth;
                        totalUsed = length leaveAssignments
                    in Inr
                      \<lparr>used =
                         \<lparr>weekly_used = Some (int usedThisWeek),
                          weeksThisMonth_used = Some (int weeksUsedThisMonth),
                          total_used = Some (int totalUsed)\<rparr>,
                       remaining =
                         \<lparr>weekly_remaining =
                            Some (js_minus
                              (case weekly (quotas (rules leaveType)) of
                                 None \<Rightarrow> Infinity | Some q \<Rightarrow> Num (max_days q))
                              (int usedThisWeek)),
                          weeksThisMonth_remaining =
                            Some (js_minus
                              (case weeks_per_month (quotas (rules leaveType)) of
                                 None \<Rightarrow> Infinity | Some q \<Rightarrow> Num (max_weeks q))
                              (int weeksUsedThisMonth)),
                          total_remaining =
                            Some (js_minus
                              (case total (quotas (rules leaveType)) of
                                 None \<Rightarrow> Infinity | Some q \<Rightarrow> Num (max_days q))
                              (int totalUsed))\<rparr>\<rparr>)))))))"

section \<open>Eligibility check\<close>

definition ineligible :: "string \<Rightarrow> Eligibility" where
  "ineligible r = \<lparr>eligible = False, reason = Some r\<rparr>"

text \<open>
  The weeks-per-month block of \<^verbatim>\<open>isLeaveEligibleForDate\<close>, in two parts: the set
  \<^verbatim>\<open>weeksUsed\<close> of week starts of this leave type's assignments in the target's month,
  and the test against \<^verbatim>\<open>max_weeks\<close>.
\<close>

definition monthlyWeeksUsed ::
  "int \<Rightarrow> Assignment list \<Rightarrow> string \<Rightarrow> string \<Rightarrow> js_error + string list" where
  "monthlyWeeksUsed tza assignments ltId d =
     (let targetDateObj = parseDate tza d;
          monthStart = getMonthStart tza targetDateObj;
          monthEnd = getMonthEnd tza targetDateObj
      in bind_js (formatDate monthStart) (\<lambda>monthStartStr.
         bind_js (formatDate monthEnd) (\<lambda>monthEndStr.
         let monthlyAssignments =
               filter (\<lambda>a. leaveTypeId a = ltId \<and> isDateInRange (date a) monthStartStr monthEndStr)
                 assignments
         in weeksUsed_loop tza monthlyAssignments [])))"

definition weeksPerMonthCheck ::
  "int \<Rightarrow> Assignment list \<Rightarrow> string \<Rightarrow> string \<Rightarrow> MaxWeeks \<Rightarrow> js_error + Eligibility" where
  "weeksPerMonthCheck tza assignments ltId d wpm =
     (let targetDateObj = parseDate tza d;
          weekStartOfTarget = getWeekStart tza targetDateObj
      in bind_js (monthlyWeeksUsed tza assignments ltId d) (\<lambda>weeksUsed.
         bind_js (formatDate weekStartOfTarget) (\<lambda>targetWeekStart.
         let wouldBeNewWeek = (targetWeekStart \<notin> set weeksUsed)
         in if wouldBeNewWeek \<and> int (length weeksUsed) \<ge> max_weeks wpm
            then Inr (ineligible ''Monthly week limit exceeded'')
            else Inr \<lparr>eligible = True, reason = None\<rparr>)))"

definition isLeaveEligibleForDate ::
  "int \<Rightarrow> int \<Rightarrow> LeaveType list \<Rightarrow> Assignment list \<Rightarrow> string \<Rightarrow> string
     \<Rightarrow> js_error + Eligibility" where
  "isLeaveEligibleForDate tza now leaveTypes assignments ltId d =
     (case find (\<lambda>lt. id_lt lt = ltId) leaveTypes of
        None \<Rightarrow> Inr (ineligible ''Leave type not found'')
      | Some leaveType \<Rightarrow>
          if \<not> isDateInRange d (window_start (date_window (rules leaveType)))
                 (window_end (date_window (rules leaveType)))
          then Inr (ineligible ''Date outside leave window'')
          else if (case days_of_week (rules leaveType) of
                     None \<Rightarrow> False
                   | Some days \<Rightarrow>
                       (case parseDate tza d of
                          Invalid_Date \<Rightarrow> True
                        | Time_Value t \<Rightarrow> getDay tza t \<notin> set days))
          then Inr (ineligible ''Day of week not allowed'')
          else if find (\<lambda>a. date a = d \<and> leaveTypeId a = ltId) assignments \<noteq> None
          then Inr (ineligible ''Already assigned'')
          else if list_ex (\<lambda>a. date a = d) assignments
          then Inr (ineligible ''Date already has another leave assigned'')
          else
            bind_js (calculateQuotas tza now leaveTypes assignments ltId (Some d)) (\<lambda>q.
              if weekly (quotas (rules leaveType)) \<noteq> None
                 \<and> js_le_zero (weekly_remaining (remaining q))
              then Inr (ineligible ''Weekly quota exceeded'')
              else if total (quotas (rules leaveType)) \<noteq> None
                 \<and> js_le_zero (total_remaining (remaining q))
              then Inr (ineligible ''Total quota exceeded'')
              else
                (case weeks_per_month (quotas (rules leaveType)) of
                   None \<Rightarrow> Inr \<lparr>eligible = True, reason = None\<rparr>
                 | Some wpm \<Rightarrow> weeksPerMonthCheck tza assignments ltId d wpm)))"

section \<open>Generate calendar days\<close>

text \<open>
  \<^verbatim>\<open>leaveTypes.filter(lt => isLeaveEligibleForDate(lt.id, dateStr).eligible)\<close>; the
  leave types checked are \<open>lts\<close>, against the whole list \<open>leaveTypes\<close>.
\<close>

fun eligible_filter ::
  "int \<Rightarrow> int \<Rightarrow> LeaveType list \<Rightarrow> Assignment list \<Rightarrow> string \<Rightarrow> LeaveType list
     \<Rightarrow> js_error + LeaveType list" where
  "eligible_filter tza now leaveTypes assignments dateStr [] = Inr []"
| "eligible_filter tza now leaveTypes assignments dateStr (lt # lts) =
     bind_js (isLeaveEligibleForDate tza now leaveTypes assignments (id_lt lt) dateStr) (\<lambda>r.
     bind_js (eligible_filter tza now leaveTypes assignments dateStr lts) (\<lambda>rest.
       Inr (if eligible r then lt # rest else rest)))"

text \<open>
  The loop of \<^verbatim>\<open>calendarDays\<close>: \<open>n\<close> cells are still to be made and \<open>cur\<close> is
  \<^verbatim>\<open>currentDateForLoop\<close>.
\<close>

fun calendarLoop ::
  "int \<Rightarrow> int \<Rightarrow> LeaveType list \<Rightarrow> Assignment list \<Rightarrow> int \<Rightarrow> nat \<Rightarrow> JSDate
     \<Rightarrow> js_error + DayInfo list" where
  "calendarLoop tza now leaveTypes assignments month 0 cur = Inr []"
| "calendarLoop tza now leaveTypes assignments month (Suc n) cur =
     (case cur of
        Invalid_Date \<Rightarrow> Inl RangeError
      | Time_Value t \<Rightarrow>
          bind_js (formatDate cur) (\<lambda>dateStr.
          let isCurrentMonth = (getMonth tza t = month);
              assignment = find (\<lambda>a. date a = dateStr) assignments
          in bind_js (eligible_filter tza now leaveTypes assignments dateStr leaveTypes)
               (\<lambda>eligibleLeaves.
             bind_js (calendarLoop tza now leaveTypes assignments month n
                        (setDate tza t (getDate tza t + 1))) (\<lambda>days.
               Inr (\<lparr>date_di = dateStr, isCurrentMonth = isCurrentMonth,
                      assignment = assignment,
                      eligibleLeaves = map id_lt eligibleLeaves\<rparr> # days)))))"

definition calendarDays ::
  "int \<Rightarrow> int \<Rightarrow> LeaveType list \<Rightarrow> Assignment list \<Rightarrow> JSDate \<Rightarrow> js_error + DayInfo list" where
  "calendarDays tza now leaveTypes assignments currentDate =
     (case currentDate of
        Invalid_Date \<Rightarrow> Inl RangeError
      | Time_Value t \<Rightarrow>
          (let year = getFullYear tza t;
               month = getMonth tza t;
               firstDay = Date_ymd tza year month 1;
               startDate =
                 (case firstDay of
                    Invalid_Date \<Rightarrow> Invalid_Date
                  | Time_Value f \<Rightarrow> setDate tza f (getDate tza f - getDay tza f + 1))
           in calendarLoop tza now leaveTypes assignments month 42 startDate))"

section \<open>Event handlers\<close>

record AppState =
  leaveTypes :: "LeaveType list"
  assignments :: "Assignment list"
  history :: "Assignment list list"
  selectedDate :: "string option"

text \<open>
  The new assignment's id and time stamps come from the clock; they are parameters here.
\<close>

definition assignLeave ::
  "AppState \<Rightarrow> string \<Rightarrow> string \<Rightarrow> string \<Rightarrow> string \<Rightarrow> string \<Rightarrow> AppState" where
  "assignLeave st d ltId newId created updated =
     (let newAssignment =
            \<lparr>id_a = newId, date = d, leaveTypeId = ltId, createdAt = created,
             updatedAt = updated\<rparr>
      in st\<lparr>history := history st @ [assignments st],
            assignments := assignments st @ [newAssignment],
            selectedDate := None\<rparr>)"

definition removeAssignment :: "AppState \<Rightarrow> string \<Rightarrow> AppState" where
  "removeAssignment st assignmentId =
     st\<lparr>history := history st @ [assignments st],
        assignments := filter (\<lambda>a. id_a a \<noteq> assignmentId) (assignments st)\<rparr>"

text \<open>
  The mutations of the assignment list. The user interface offers \<^verbatim>\<open>assignLeave\<close> for a
  leave type only where \<^verbatim>\<open>isLeaveEligibleForDate\<close> has just returned eligible for the
  current lists; a mutation that is not offered does not happen (\<open>None\<close>).
\<close>

datatype Mutation =
  AssignLeave int string string string string string
| RemoveAssignment string

definition eligible_now :: "int \<Rightarrow> int \<Rightarrow> AppState \<Rightarrow> string \<Rightarrow> string \<Rightarrow> bool" where
  "eligible_now tza now st ltId d =
     (case isLeaveEligibleForDate tza now (leaveTypes st) (assignments st) ltId d of
        Inl e \<Rightarrow> False
      | Inr r \<Rightarrow> eligible r)"

fun apply_mutation :: "int \<Rightarrow> AppState \<Rightarrow> Mutation \<Rightarrow> AppState option" where
  "apply_mutation tza st (AssignLeave now d ltId newId created updated) =
     (if eligible_now tza now st ltId d
      then Some (assignLeave st d ltId newId created updated) else None)"
| "apply_mutation tza st (RemoveAssignment assignmentId) =
     Some (removeAssignment st assignmentId)"

fun apply_mutations :: "int \<Rightarrow> AppState \<Rightarrow> Mutation list \<Rightarrow> AppState option" where
  "apply_mutations tza st [] = Some st"
| "apply_mutations tza st (m # ms) =
     (case apply_mutation tza st m of
        None \<Rightarrow> None
      | Some st' \<Rightarrow> apply_mutations tza st' ms)"

section \<open>Seed data\<close>

definition createSeedLeaveTypes :: "LeaveType list" where
  "createSeedLeaveTypes =
     [\<lparr>id_lt = ''leave-1'', name = ''Mother Leave'', color = ''#3B82F6'',
       rules = \<lparr>date_window = \<lparr>window_start = ''2025-07-03'', window_end = ''2025-08-02''\<rparr>,
                days_of_week = None,
                quotas = \<lparr>weekly = Some \<lparr>max_days = 1\<rparr>,
                          weeks_per_month = Some \<lparr>max_weeks = 4\<rparr>, total = None\<rparr>\<rparr>,
       notes_lt = None\<rparr>,
      \<lparr>id_lt = ''leave-2'', name = ''Therapy Sessions'', color = ''#10B981'',
       rules = \<lparr>date_window = \<lparr>window_start = ''2025-01-01'', window_end = ''2025-12-20''\<rparr>,
                days_of_week = None,
                quotas = \<lparr>weekly = Some \<lparr>max_days = 3\<rparr>,
                          weeks_per_month = Some \<lparr>max_weeks = 2\<rparr>, total = None\<rparr>\<rparr>,
       notes_lt = None\<rparr>]"

section \<open>The checks of the eligibility evaluation, named\<close>

text \<open>
  The conditions that \<^verbatim>\<open>isLeaveEligibleForDate\<close> tests, in the order in which it tests
  them, for a leave type \<open>C\<close> that was found.
\<close>

definition window_ok :: "LeaveType \<Rightarrow> string \<Rightarrow> bool" where
  "window_ok C d =
     isDateInRange d (window_start (date_window (rules C))) (window_end (date_window (rules C)))"

definition day_ok :: "int \<Rightarrow> LeaveType \<Rightarrow> string \<Rightarrow> bool" where
  "day_ok tza C d =
     (case days_of_week (rules C) of
        None \<Rightarrow> True
      | Some days \<Rightarrow>
          (case parseDate tza d of
             Invalid_Date \<Rightarrow> False
           | Time_Value t \<Rightarrow> getDay tza t \<in> set days))"

definition already_assigned :: "Assignment list \<Rightarrow> string \<Rightarrow> string \<Rightarrow> bool" where
  "already_assigned as ltId d = list_ex (\<lambda>a. date a = d \<and> leaveTypeId a = ltId) as"

definition date_occupied :: "Assignment list \<Rightarrow> string \<Rightarrow> bool" where
  "date_occupied as d = list_ex (\<lambda>a. date a = d) as"

definition weekly_exceeded :: "LeaveType \<Rightarrow> QuotaResult \<Rightarrow> bool" where
  "weekly_exceeded C q =
     (weekly (quotas (rules C)) \<noteq> None \<and> js_le_zero (weekly_remaining (remaining q)))"

definition total_exceeded :: "LeaveType \<Rightarrow> QuotaResult \<Rightarrow> bool" where
  "total_exceeded C q =
     (total (quotas (rules C)) \<noteq> None \<and> js_le_zero (total_remaining (remaining q)))"

section \<open>Example data\<close>

definition example_leave :: "string \<Rightarrow> int list option \<Rightarrow> Quotas \<Rightarrow> LeaveType" where
  "example_leave i days q =
     \<lparr>id_lt = i, name = i, color = ''#6366F1'',
      rules = \<lparr>date_window = \<lparr>window_start = ''2025-07-03'', window_end = ''2025-08-02''\<rparr>,
               days_of_week = days, quotas = q\<rparr>,
      notes_lt = None\<rparr>"

definition assignment_on :: "string \<Rightarrow> string \<Rightarrow> Assignment" where
  "assignment_on d ltId =
     \<lparr>id_a = ''assignment-'' @ d, date = d, leaveTypeId = ltId,
      createdAt = ''2025-07-01T09:00:00.000Z'', updatedAt = ''2025-07-01T09:00:00.000Z''\<rparr>"

definition seedState :: AppState where
  "seedState =
     \<lparr>leaveTypes = createSeedLeaveTypes, assignments = [], history = [], selectedDate = None\<rparr>"

section \<open>Days and date strings\<close>

definition local_midnight :: "int \<Rightarrow> int \<Rightarrow> int" where
  "local_midnight tza D = D * msPerDay - tza"

text \<open>The days of the years 0 to 9999: the days that a date string can name.\<close>

definition canon_day :: "int \<Rightarrow> bool" where
  "canon_day D = (DayFromYear 0 \<le> D \<and> D < DayFromYear 10000)"

text \<open>The day on which the week of day \<open>D\<close> starts, as \<^verbatim>\<open>getWeekStart\<close> computes it.\<close>

definition week_start_day :: "int \<Rightarrow> int" where
  "week_start_day D = D - WeekDay D + (if WeekDay D = 0 then - 6 else 1)"

text \<open>A date string that names a day of the calendar.\<close>

definition valid_date :: "string \<Rightarrow> bool" where
  "valid_date s = (parse_ymd s \<noteq> None)"

text \<open>The day that a date string names (0 for a string that names none).\<close>

definition day_of :: "string \<Rightarrow> int" where
  "day_of s = (case parse_ymd s of None \<Rightarrow> 0 | Some (y, m, d) \<Rightarrow> MakeDay y (m - 1) d)"

text \<open>The first and the last day of the month of day \<open>D\<close>.\<close>

definition month_first_day :: "int \<Rightarrow> int" where
  "month_first_day D = MakeDay (YearFromDay D) (MonthFromDay D) 1"

definition month_last_day :: "int \<Rightarrow> int" where
  "month_last_day D = MakeDay (YearFromDay D) (MonthFromDay D + 1) 1 - 1"

text \<open>
  The week starts that a leave type has used in the month of day \<open>D\<close>: the week starts of
  the days of that month on which it is assigned.
\<close>

definition weeks_used_in_month :: "Assignment list \<Rightarrow> string \<Rightarrow> int \<Rightarrow> int set" where
  "weeks_used_in_month as ltId D =
     set (map (\<lambda>a. week_start_day (day_of (date a)))
       (filter (\<lambda>a. leaveTypeId a = ltId
                  \<and> YearFromDay (day_of (date a)) = YearFromDay D
                  \<and> MonthFromDay (day_of (date a)) = MonthFromDay D) as))"


text \<open>
  The day number of \<^verbatim>\<open>firstDay = new Date(year, month, 1)\<close> in \<^verbatim>\<open>calendarDays\<close>, and the number
  of days of the month of the reference date.
\<close>

definition first_of_month :: "int \<Rightarrow> int \<Rightarrow> int" where
  "first_of_month tza t = MakeDay (getFullYear tza t) (getMonth tza t) 1"

definition days_in_month_of :: "int \<Rightarrow> int \<Rightarrow> int" where
  "days_in_month_of tza t = DaysInMonth (getFullYear tza t) (getMonth tza t)"

section \<open>Properties of the eligibility evaluation\<close>

lemma find_None_not_in: "ltId \<notin> id_lt ` set lts \<Longrightarrow> find (\<lambda>lt. id_lt lt = ltId) lts = None"
  by (auto simp: find_None_iff)

lemma find_neq_None_list_ex: "(find P xs \<noteq> None) = list_ex P xs"
  by (auto simp: find_None_iff list_ex_iff)

text \<open>The evaluation for a leave type that was found, as a chain of the named checks.\<close>

lemma eligibility_unfold:
  assumes "find (\<lambda>lt. id_lt lt = ltId) lts = Some C"
  shows "isLeaveEligibleForDate tza now lts as ltId d =
     (if \<not> window_ok C d then Inr (ineligible ''Date outside leave window'')
      else if \<not> day_ok tza C d then Inr (ineligible ''Day of week not allowed'')
      else if already_assigned as ltId d then Inr (ineligible ''Already assigned'')
      else if date_occupied as d then Inr (ineligible ''Date already has another leave assigned'')
      else bind_js (calculateQuotas tza now lts as ltId (Some d)) (\<lambda>q.
        if weekly_exceeded C q then Inr (ineligible ''Weekly quota exceeded'')
        else if total_exceeded C q then Inr (ineligible ''Total quota exceeded'')
        else (case weeks_per_month (quotas (rules C)) of
                None \<Rightarrow> Inr \<lparr>eligible = True, reason = None\<rparr>
              | Some wpm \<Rightarrow> weeksPerMonthCheck tza as ltId d wpm)))"
  unfolding isLeaveEligibleForDate_def window_ok_def day_ok_def already_assigned_def
    date_occupied_def weekly_exceeded_def total_exceeded_def find_neq_None_list_ex
  by (simp add: assms split: option.split JSDate.split)

lemma already_assigned_occupied: "already_assigned as ltId d \<Longrightarrow> date_occupied as d"
  by (auto simp: already_assigned_def date_occupied_def list_ex_iff)

lemma weeksPerMonthCheck_results:
  assumes "weeksPerMonthCheck tza as ltId d wpm = Inr r"
  shows "r = ineligible ''Monthly week limit exceeded'' \<or> r = \<lparr>eligible = True, reason = None\<rparr>"
  using assms unfolding weeksPerMonthCheck_def bind_js_def Let_def
  by (auto split: sum.splits if_splits)

lemma calculateQuotas_remaining:
  assumes "find (\<lambda>lt. id_lt lt = ltId) lts = Some C"
    and "calculateQuotas tza now lts as ltId td = Inr q"
  shows "(weekly (quotas (rules C)) = None \<longrightarrow> weekly_remaining (remaining q) = Some Infinity)
       \<and> (weeks_per_month (quotas (rules C)) = None \<longrightarrow>
            weeksThisMonth_remaining (remaining q) = Some Infinity)
       \<and> (total (quotas (rules C)) = None \<longrightarrow> total_remaining (remaining q) = Some Infinity)"
  using assms unfolding calculateQuotas_def bind_js_def Let_def
  by (auto split: sum.splits)

lemma calculateQuotas_own:
  "calculateQuotas tza now lts as ltId td =
     calculateQuotas tza now lts (filter (\<lambda>a. leaveTypeId a = ltId) as) ltId td"
proof -
  have "filter (\<lambda>a. leaveTypeId a = ltId) (filter (\<lambda>a. leaveTypeId a = ltId) as) =
      filter (\<lambda>a. leaveTypeId a = ltId) as"
    by simp
  then show ?thesis
    unfolding calculateQuotas_def by (simp only:)
qed


lemma eligible_date_free:
  assumes "isLeaveEligibleForDate tza now lts as ltId d = Inr r" and "eligible r"
  shows "d \<notin> set (map date as)"
proof (cases "find (\<lambda>lt. id_lt lt = ltId) lts")
  case None
  with assms show ?thesis
    by (auto simp: isLeaveEligibleForDate_def ineligible_def)
next
  case (Some C)
  have "\<not> date_occupied as d"
  proof
    assume occ: "date_occupied as d"
    show False
      using assms occ unfolding eligibility_unfold [OF Some]
      by (auto simp: ineligible_def split: if_splits)
  qed
  then show ?thesis
    by (auto simp: date_occupied_def list_ex_iff)
qed

lemma apply_mutation_distinct:
  assumes "distinct (map date (assignments st))" and "apply_mutation tza st m = Some st'"
  shows "distinct (map date (assignments st'))"
proof (cases m)
  case (AssignLeave now d ltId newId created updated)
  with assms(2) have el: "eligible_now tza now st ltId d"
    and st': "st' = assignLeave st d ltId newId created updated"
    by (auto split: if_splits)
  from el obtain r where
    "isLeaveEligibleForDate tza now (leaveTypes st) (assignments st) ltId d = Inr r"
    and "eligible r"
    by (auto simp: eligible_now_def split: sum.splits)
  then have "d \<notin> set (map date (assignments st))"
    by (rule eligible_date_free)
  with assms(1) show ?thesis
    by (simp add: st' assignLeave_def)
next
  case (RemoveAssignment assignmentId)
  with assms(2) have "st' = removeAssignment st assignmentId" by simp
  with assms(1) show ?thesis
    by (simp add: removeAssignment_def distinct_map_filter)
qed

lemma Set_add_distinct: "distinct S \<Longrightarrow> distinct (Set_add x S)"
  by (simp add: Set_add_def)

lemma weeksUsed_loop_distinct:
  "distinct S \<Longrightarrow> weeksUsed_loop tza as S = Inr W \<Longrightarrow> distinct W"
proof (induction as arbitrary: S)
  case Nil
  then show ?case by simp
next
  case (Cons a as)
  from Cons.prems(2) obtain w where
    "weeksUsed_loop tza as (Set_add w S) = Inr W"
    by (auto simp: bind_js_def split: sum.splits)
  moreover have "distinct (Set_add w S)"
    using Cons.prems(1) by (rule Set_add_distinct)
  ultimately show ?case by (rule Cons.IH [rotated])
qed

lemma monthlyWeeksUsed_distinct:
  assumes "monthlyWeeksUsed tza as ltId d = Inr W"
  shows "distinct W"
  using assms unfolding monthlyWeeksUsed_def bind_js_def Let_def
  by (auto split: sum.splits intro: weeksUsed_loop_distinct [of "[]"])

section \<open>Properties of the calendar arithmetic\<close>

lemma DaysInYear_le: "DaysInYear y \<le> 366"
  by (simp add: DaysInYear_def)

lemma DayFromYear_less_Suc: "DayFromYear y < DayFromYear (y + 1)"
  using DaysInYear_ge [of y] by (simp only: DayFromYear_Suc)

lemma DayFromYear_strict_mono:
  assumes "y < y'"
  shows "DayFromYear y < DayFromYear y'"
  using assms
proof (induction y' rule: int_gr_induct)
  case base
  show ?case by (rule DayFromYear_less_Suc)
next
  case (step i)
  then show ?case using DayFromYear_less_Suc [of i] by simp
qed

lemma DayFromYear_mono: "y \<le> y' \<Longrightarrow> DayFromYear y \<le> DayFromYear y'"
  using DayFromYear_strict_mono [of y y'] by (cases "y = y'") auto

lemma year_search_spec:
  "DayFromYear y0 \<le> d \<Longrightarrow>
     DayFromYear (year_search d y0) \<le> d \<and> d < DayFromYear (year_search d y0 + 1)"
proof (induction d y0 rule: year_search.induct)
  case (1 d y)
  show ?case
  proof (cases "DayFromYear (y + 1) \<le> d")
    case True
    then show ?thesis using "1.IH" by simp
  next
    case False
    then show ?thesis using "1.prems" by simp
  qed
qed

lemma DayFromYear_1970: "DayFromYear 1970 = 0"
  by (simp add: DayFromYear_def)

lemma DayFromYear_upper: "0 \<le> k \<Longrightarrow> DayFromYear (1970 + k) \<le> 366 * k"
proof (induction k rule: int_ge_induct)
  case base
  show ?case by (simp add: DayFromYear_1970)
next
  case (step i)
  have "DayFromYear (1970 + (i + 1)) = DayFromYear (1970 + i) + DaysInYear (1970 + i)"
    using DayFromYear_Suc [of "1970 + i"] by (simp add: add.assoc)
  then show ?case using step.IH DaysInYear_le [of "1970 + i"] by simp
qed

lemma DayFromYear_lower: "k \<le> 0 \<Longrightarrow> DayFromYear (1970 + k) \<le> 365 * k"
proof (induction k rule: int_le_induct)
  case base
  show ?case by (simp add: DayFromYear_1970)
next
  case (step i)
  have "DayFromYear (1970 + i) = DayFromYear (1970 + (i - 1)) + DaysInYear (1970 + (i - 1))"
    using DayFromYear_Suc [of "1970 + (i - 1)"] by (simp add: algebra_simps)
  then show ?case using step.IH DaysInYear_ge [of "1970 + (i - 1)"] by simp
qed

lemma year_estimate:
  "DayFromYear (if 0 \<le> d then 1970 + d div 366 else 1969 + d div 365) \<le> d"
proof (cases "0 \<le> d")
  case True
  define k where "k = d div 366"
  have k0: "0 \<le> k" using True by (simp add: k_def pos_imp_zdiv_nonneg_iff)
  have "366 * k \<le> d"
    unfolding k_def using mult_div_mod_eq [of 366 d] pos_mod_sign [of 366 d] by linarith
  then show ?thesis using True DayFromYear_upper [OF k0] by (simp add: k_def)
next
  case False
  define k where "k = d div 365"
  have kneg: "k < 0" using False by (simp add: k_def div_neg_pos_less0)
  have kd: "365 * k \<le> d"
    unfolding k_def using mult_div_mod_eq [of 365 d] pos_mod_sign [of 365 d] by linarith
  have "DayFromYear (1970 + (k - 1)) \<le> 365 * (k - 1)"
    using kneg by (intro DayFromYear_lower) simp
  then have "DayFromYear (1969 + k) \<le> d"
    using kd by (simp add: algebra_simps)
  then show ?thesis using False by (simp add: k_def)
qed

lemma YearFromDay_spec:
  "DayFromYear (YearFromDay d) \<le> d \<and> d < DayFromYear (YearFromDay d + 1)"
  unfolding YearFromDay_def by (rule year_search_spec) (rule year_estimate)

lemma YearFromDay_unique:
  assumes "DayFromYear y \<le> d" and "d < DayFromYear (y + 1)"
  shows "YearFromDay d = y"
proof (rule ccontr)
  assume ne: "YearFromDay d \<noteq> y"
  show False
  proof (cases "YearFromDay d < y")
    case True
    then have "DayFromYear (YearFromDay d + 1) \<le> DayFromYear y"
      by (intro DayFromYear_mono) simp
    with YearFromDay_spec [of d] assms show False by linarith
  next
    case False
    with ne have "DayFromYear (y + 1) \<le> DayFromYear (YearFromDay d)"
      by (intro DayFromYear_mono) simp
    with YearFromDay_spec [of d] assms show False by linarith
  qed
qed

lemma DayWithinYear_bounds:
  "0 \<le> DayWithinYear d \<and> DayWithinYear d < DaysInYear (YearFromDay d)"
  using YearFromDay_spec [of d] DayFromYear_Suc [of "YearFromDay d"]
  by (simp add: DayWithinYear_def)

lemma DaysInYear_cases: "DaysInYear y = 365 \<or> DaysInYear y = 366"
  by (simp add: DaysInYear_def)

lemma month_cases:
  fixes m :: int
  assumes "0 \<le> m" "m \<le> 11"
  shows "m = 0 \<or> m = 1 \<or> m = 2 \<or> m = 3 \<or> m = 4 \<or> m = 5 \<or> m = 6 \<or> m = 7 \<or> m = 8
     \<or> m = 9 \<or> m = 10 \<or> m = 11"
  using assms by arith

lemma month_offset_12: "month_offset (InLeapYear y) 12 = DaysInYear y"
proof (cases "DaysInYear y = 366")
  case True
  then show ?thesis by (simp add: month_offset_def InLeapYear_def)
next
  case False
  with DaysInYear_cases [of y] have "DaysInYear y = 365" by simp
  then show ?thesis by (simp add: month_offset_def InLeapYear_def)
qed

lemma month_offset_mono:
  assumes "0 \<le> m" "m \<le> 11"
  shows "0 \<le> month_offset L m \<and> month_offset L m + 28 \<le> month_offset L (m + 1)
     \<and> month_offset L (m + 1) \<le> month_offset L m + 31
     \<and> month_offset L (m + 1) \<le> month_offset L 12"
  using month_cases [OF assms] by (elim disjE) (simp_all add: month_offset_def)

lemma MakeDay_month:
  assumes "0 \<le> m" "m \<le> 11"
  shows "MakeDay y m dt = DayFromYear y + month_offset (InLeapYear y) m + dt - 1"
proof -
  have "m div 12 = 0" "m mod 12 = m" using assms by simp_all
  then show ?thesis by (simp add: MakeDay_def)
qed

lemma MakeDay_12: "MakeDay y 12 dt = DayFromYear y + month_offset (InLeapYear y) 12 + dt - 1"
proof -
  have "MakeDay y 12 dt = DayFromYear (y + 1) + dt - 1"
    by (simp add: MakeDay_def month_offset_def)
  then show ?thesis
    by (simp only: month_offset_12 DayFromYear_Suc)
qed

lemma MakeDay_carry: "MakeDay y m dt = MakeDay (y + m div 12) (m mod 12) dt"
  by (simp add: MakeDay_def)

lemma DaysInMonth_offset:
  assumes "0 \<le> m" "m \<le> 11"
  shows "DaysInMonth y m = month_offset (InLeapYear y) (m + 1) - month_offset (InLeapYear y) m"
proof (cases "m = 11")
  case True
  then show ?thesis
    by (simp add: DaysInMonth_def MakeDay_12 MakeDay_month)
next
  case False
  with assms have "0 \<le> m + 1" "m + 1 \<le> 11" by simp_all
  then show ?thesis
    using assms by (simp add: DaysInMonth_def MakeDay_month)
qed

lemma DaysInMonth_range:
  assumes "0 \<le> m" "m \<le> 11"
  shows "28 \<le> DaysInMonth y m \<and> DaysInMonth y m \<le> 31"
  using month_offset_mono [OF assms, of "InLeapYear y"] DaysInMonth_offset [OF assms, of y]
  by simp

lemma MonthInYear_range: "0 \<le> MonthInYear L w \<and> MonthInYear L w \<le> 11"
  by (simp add: MonthInYear_def)

lemma MonthFromDay_range: "0 \<le> MonthFromDay d \<and> MonthFromDay d \<le> 11"
  unfolding MonthFromDay_def by (rule MonthInYear_range)

lemma MonthInYear_eq:
  assumes "0 \<le> m" "m \<le> 11" "month_offset L m \<le> w" "w < month_offset L (m + 1)"
  shows "MonthInYear L w = m"
  using month_cases [OF assms(1,2)] assms(3,4)
  by (cases L; elim disjE) (simp_all add: MonthInYear_def month_offset_def)

lemma MonthInYear_bounds:
  assumes "0 \<le> w" "w < month_offset L 12"
  shows "month_offset L (MonthInYear L w) \<le> w \<and> w < month_offset L (MonthInYear L w + 1)"
  using assms by (cases L) (simp_all add: MonthInYear_def month_offset_def)

lemma MonthFromDay_eq:
  assumes "0 \<le> m" "m \<le> 11"
    and "month_offset (InLeapYear (YearFromDay D)) m \<le> DayWithinYear D"
    and "DayWithinYear D < month_offset (InLeapYear (YearFromDay D)) (m + 1)"
  shows "MonthFromDay D = m"
  unfolding MonthFromDay_def using assms by (rule MonthInYear_eq)

lemma MonthFromDay_bounds:
  "month_offset (InLeapYear (YearFromDay D)) (MonthFromDay D) \<le> DayWithinYear D
   \<and> DayWithinYear D < month_offset (InLeapYear (YearFromDay D)) (MonthFromDay D + 1)"
proof -
  have "DayWithinYear D < month_offset (InLeapYear (YearFromDay D)) 12"
    using DayWithinYear_bounds [of D] by (simp add: month_offset_12)
  then show ?thesis
    unfolding MonthFromDay_def using DayWithinYear_bounds [of D]
    by (intro MonthInYear_bounds) simp_all
qed

lemma DateFromDay_range:
  "1 \<le> DateFromDay D \<and> DateFromDay D \<le> DaysInMonth (YearFromDay D) (MonthFromDay D)"
  using MonthFromDay_bounds [of D] MonthFromDay_range [of D]
  by (simp add: DateFromDay_def DaysInMonth_offset)

lemma MakeDay_of_day:
  "MakeDay (YearFromDay D) (MonthFromDay D) x = D - DateFromDay D + x"
  using MonthFromDay_range [of D]
  by (simp add: MakeDay_month DateFromDay_def DayWithinYear_def)

lemma MakeDay_inverse:
  assumes "0 \<le> m" "m \<le> 11" "1 \<le> dt" "dt \<le> DaysInMonth y m"
  shows "YearFromDay (MakeDay y m dt) = y \<and> MonthFromDay (MakeDay y m dt) = m
     \<and> DateFromDay (MakeDay y m dt) = dt"
proof -
  define D where "D = MakeDay y m dt"
  have D: "D = DayFromYear y + month_offset (InLeapYear y) m + dt - 1"
    unfolding D_def by (rule MakeDay_month [OF assms(1,2)])
  have off: "0 \<le> month_offset (InLeapYear y) m"
    "month_offset (InLeapYear y) (m + 1) \<le> month_offset (InLeapYear y) 12"
    using month_offset_mono [OF assms(1,2), of "InLeapYear y"] by simp_all
  have dt: "month_offset (InLeapYear y) m + dt - 1 < month_offset (InLeapYear y) (m + 1)"
    using assms(4) DaysInMonth_offset [OF assms(1,2), of y] by simp
  have Y: "YearFromDay D = y"
  proof (rule YearFromDay_unique)
    show "DayFromYear y \<le> D" using D off(1) assms(3) by simp
    show "D < DayFromYear (y + 1)"
      using D dt off(2) by (simp add: DayFromYear_Suc month_offset_12)
  qed
  have W: "DayWithinYear D = month_offset (InLeapYear y) m + dt - 1"
    unfolding DayWithinYear_def Y by (simp add: D)
  have M: "MonthFromDay D = m"
    by (rule MonthFromDay_eq [OF assms(1,2)]) (use W Y dt assms(3) in simp_all)
  have "DateFromDay D = dt"
    unfolding DateFromDay_def W Y M by simp
  with Y M show ?thesis by (simp add: D_def)
qed

lemma digit_val_digit_char:
  assumes "0 \<le> k" "k \<le> 9"
  shows "digit_val (digit_char k) = k"
proof -
  have "(48 + k) mod 256 = 48 + k" using assms by simp
  then show ?thesis by (simp add: digit_val_def digit_char_def)
qed

lemma of_char_nat_digit_char:
  assumes "0 \<le> k" "k \<le> 9"
  shows "(of_char (digit_char k) :: nat) = nat (48 + k)"
proof -
  have "int (of_char (digit_char k) :: nat) = (of_char (digit_char k) :: int)"
    by (rule of_nat_of_char)
  also have "\<dots> = (48 + k) mod 256" by (simp add: digit_char_def)
  also have "\<dots> = 48 + k" using assms by simp
  finally show ?thesis by simp
qed

lemma is_digit_digit_char:
  assumes "0 \<le> k" "k \<le> 9"
  shows "is_digit (digit_char k)"
proof -
  have "nat (48 + k) = 48 + nat k" using assms by simp
  moreover have "nat k \<le> 9" using assms by simp
  ultimately show ?thesis
    using assms by (simp add: is_digit_def less_eq_char_def of_char_nat_digit_char)
qed

lemma is_digit_val:
  assumes "is_digit c"
  shows "0 \<le> digit_val c \<and> digit_val c \<le> 9"
proof -
  have "(48::nat) \<le> of_char c" "(of_char c :: nat) \<le> 57"
    using assms by (simp_all add: is_digit_def less_eq_char_def)
  moreover have "(of_char c :: int) = int (of_char c)"
    by (simp add: of_nat_of_char)
  ultimately show ?thesis by (simp add: digit_val_def)
qed

lemma pad2: "pad 2 n = [digit_char (n div 10 mod 10), digit_char (n mod 10)]"
  by (simp add: numeral_2_eq_2)

lemma div_10_10: "(n::int) div 10 div 10 = n div 100"
proof -
  have "n div (10 * 10) = n div 10 div 10" by (rule zdiv_zmult2_eq) simp
  then show ?thesis by simp
qed

lemma div_100_10: "(n::int) div 100 div 10 = n div 1000"
proof -
  have "n div (100 * 10) = n div 100 div 10" by (rule zdiv_zmult2_eq) simp
  then show ?thesis by simp
qed

lemma pad4:
  "pad 4 n = [digit_char (n div 1000 mod 10), digit_char (n div 100 mod 10),
              digit_char (n div 10 mod 10), digit_char (n mod 10)]"
proof -
  have "pad (Suc (Suc (Suc (Suc 0)))) n =
      [digit_char (n div 10 div 10 div 10 mod 10), digit_char (n div 10 div 10 mod 10),
       digit_char (n div 10 mod 10), digit_char (n mod 10)]"
    by simp
  moreover have "(4::nat) = Suc (Suc (Suc (Suc 0)))" by simp
  ultimately show ?thesis by (simp only: div_10_10 div_100_10)
qed

lemma digits4:
  fixes y :: int
  assumes "0 \<le> y" "y \<le> 9999"
  shows "1000 * (y div 1000 mod 10) + 100 * (y div 100 mod 10) + 10 * (y div 10 mod 10)
           + y mod 10 = y"
proof -
  have a: "y div 1000 mod 10 = y div 1000" using assms by simp
  have b: "y div 100 = 10 * (y div 1000) + y div 100 mod 10"
    using div_mult_mod_eq [of "y div 100" 10] by (simp add: div_100_10)
  have c: "y div 10 = 10 * (y div 100) + y div 10 mod 10"
    using div_mult_mod_eq [of "y div 10" 10] by (simp add: div_10_10)
  have d: "y = 10 * (y div 10) + y mod 10" by simp
  show ?thesis using a b c d by linarith
qed

lemma digits2:
  fixes n :: int
  assumes "0 \<le> n" "n \<le> 99"
  shows "10 * (n div 10 mod 10) + n mod 10 = n"
proof -
  have "n div 10 mod 10 = n div 10" using assms by simp
  then show ?thesis by simp
qed

lemma mod10_range: "0 \<le> (n::int) mod 10 \<and> n mod 10 \<le> 9"
  by simp

lemma parse_ymd_digits:
  assumes "0 \<le> y" "y \<le> 9999" "1 \<le> m" "m \<le> 12" "1 \<le> d" "d \<le> DaysInMonth y (m - 1)"
  shows "parse_ymd (pad 4 y @ ''-'' @ pad 2 m @ ''-'' @ pad 2 d) = Some (y, m, d)"
proof -
  have d31: "d \<le> 99" using DaysInMonth_range [of "m - 1" y] assms by simp
  define a1 where "a1 = y div 1000 mod 10"
  define a2 where "a2 = y div 100 mod 10"
  define a3 where "a3 = y div 10 mod 10"
  define a4 where "a4 = y mod 10"
  define b1 where "b1 = m div 10 mod 10"
  define b2 where "b2 = m mod 10"
  define c1 where "c1 = d div 10 mod 10"
  define c2 where "c2 = d mod 10"
  note defs = a1_def a2_def a3_def a4_def b1_def b2_def c1_def c2_def
  have rng: "0 \<le> a1 \<and> a1 \<le> 9" "0 \<le> a2 \<and> a2 \<le> 9" "0 \<le> a3 \<and> a3 \<le> 9"
    "0 \<le> a4 \<and> a4 \<le> 9" "0 \<le> b1 \<and> b1 \<le> 9" "0 \<le> b2 \<and> b2 \<le> 9"
    "0 \<le> c1 \<and> c1 \<le> 9" "0 \<le> c2 \<and> c2 \<le> 9"
    unfolding defs by (rule mod10_range)+
  have ys: "1000 * a1 + 100 * a2 + 10 * a3 + a4 = y"
    unfolding defs by (rule digits4 [OF assms(1,2)])
  have ms: "10 * b1 + b2 = m"
    unfolding defs using assms(3,4) by (intro digits2) simp_all
  have ds: "10 * c1 + c2 = d"
    unfolding defs using assms(5) d31 by (intro digits2) simp_all
  have str: "pad 4 y @ ''-'' @ pad 2 m @ ''-'' @ pad 2 d =
      [digit_char a1, digit_char a2, digit_char a3, digit_char a4, CHR ''-'',
       digit_char b1, digit_char b2, CHR ''-'', digit_char c1, digit_char c2]"
    by (simp add: pad4 pad2 defs)
  have dig: "list_all is_digit
      [digit_char a1, digit_char a2, digit_char a3, digit_char a4,
       digit_char b1, digit_char b2, digit_char c1, digit_char c2]"
    using rng by (simp add: is_digit_digit_char)
  have val: "digit_val (digit_char a1) = a1" "digit_val (digit_char a2) = a2"
    "digit_val (digit_char a3) = a3" "digit_val (digit_char a4) = a4"
    "digit_val (digit_char b1) = b1" "digit_val (digit_char b2) = b2"
    "digit_val (digit_char c1) = c1" "digit_val (digit_char c2) = c2"
    using rng by (simp_all add: digit_val_digit_char)
  show ?thesis
    unfolding str parse_ymd.simps val ys ms ds Let_def
    using dig assms by simp
qed

lemma parse_iso_date:
  assumes "0 \<le> YearFromDay D" "YearFromDay D \<le> 9999"
  shows "parse_ymd (iso_date D) = Some (YearFromDay D, MonthFromDay D + 1, DateFromDay D)"
proof -
  have "format_year (YearFromDay D) = pad 4 (YearFromDay D)"
    using assms by (simp add: format_year_def)
  then have "iso_date D =
      pad 4 (YearFromDay D) @ ''-'' @ pad 2 (MonthFromDay D + 1) @ ''-'' @ pad 2 (DateFromDay D)"
    by (simp add: iso_date_def)
  moreover have "parse_ymd (pad 4 (YearFromDay D) @ ''-'' @ pad 2 (MonthFromDay D + 1) @ ''-''
      @ pad 2 (DateFromDay D)) = Some (YearFromDay D, MonthFromDay D + 1, DateFromDay D)"
    using assms MonthFromDay_range [of D] DateFromDay_range [of D]
    by (intro parse_ymd_digits) simp_all
  ultimately show ?thesis by simp
qed

lemma parse_ymd_Some:
  assumes "parse_ymd s = Some (y, m, d)"
  shows "0 \<le> y \<and> y \<le> 9999 \<and> 1 \<le> m \<and> m \<le> 12 \<and> 1 \<le> d \<and> d \<le> DaysInMonth y (m - 1)"
proof -
  from assms obtain y1 y2 y3 y4 h1 m1 m2 h2 d1 d2 where
    s: "s = [y1, y2, y3, y4, h1, m1, m2, h2, d1, d2]"
    by (cases s rule: parse_ymd.cases) simp_all
  from assms have dig: "is_digit y1" "is_digit y2" "is_digit y3" "is_digit y4"
    and y: "y = 1000 * digit_val y1 + 100 * digit_val y2 + 10 * digit_val y3 + digit_val y4"
    and rest: "1 \<le> m \<and> m \<le> 12 \<and> 1 \<le> d \<and> d \<le> DaysInMonth y (m - 1)"
    unfolding s by (auto simp: Let_def split: if_splits)
  have "0 \<le> y \<and> y \<le> 9999"
    using is_digit_val [OF dig(1)] is_digit_val [OF dig(2)] is_digit_val [OF dig(3)]
      is_digit_val [OF dig(4)] unfolding y by linarith
  with rest show ?thesis by simp
qed

lemma msPerDay_pos: "0 < msPerDay"
  by (simp add: msPerDay_def)

lemma Day_local: "Day (local_midnight tza D + tza) = D"
  using msPerDay_pos by (simp add: Day_def local_midnight_def)

lemma TimeWithinDay_local: "TimeWithinDay (local_midnight tza D + tza) = 0"
  by (simp add: TimeWithinDay_def local_midnight_def)

lemma Day_utc: "Day (local_midnight tza D) = D + (- tza) div msPerDay"
proof -
  have "(- tza + D * msPerDay) div msPerDay = D + (- tza) div msPerDay"
    using msPerDay_pos by (intro div_mult_self1) simp
  moreover have "D * msPerDay - tza = - tza + D * msPerDay" by simp
  ultimately show ?thesis by (simp only: Day_def local_midnight_def)
qed

lemma Day_utc_west:
  assumes "- msPerDay < tza" "tza \<le> 0"
  shows "Day (local_midnight tza D) = D"
proof -
  have "(- tza) div msPerDay = 0"
    using assms by (intro div_pos_pos_trivial) simp_all
  then show ?thesis by (simp add: Day_utc)
qed

lemma TimeClip_local:
  assumes "\<bar>D\<bar> \<le> 4000000" "\<bar>tza\<bar> \<le> msPerDay"
  shows "TimeClip (local_midnight tza D) = Time_Value (local_midnight tza D)"
proof -
  have "\<bar>D * 86400000\<bar> \<le> 4000000 * 86400000"
    using assms(1) by (simp add: abs_mult)
  then have "\<bar>D * 86400000 - tza\<bar> \<le> 8640000000000000"
    using assms(2) by (simp add: msPerDay_def)
  then show ?thesis
    by (simp add: TimeClip_def local_midnight_def msPerDay_def)
qed

lemma getters_local:
  "getFullYear tza (local_midnight tza D) = YearFromDay D"
  "getMonth tza (local_midnight tza D) = MonthFromDay D"
  "getDate tza (local_midnight tza D) = DateFromDay D"
  "getDay tza (local_midnight tza D) = WeekDay D"
  by (simp_all add: getFullYear_def getMonth_def getDate_def getDay_def Day_local)

lemma setDate_local:
  "setDate tza (local_midnight tza D) x = TimeClip (local_midnight tza (D - DateFromDay D + x))"
  unfolding setDate_def getters_local TimeWithinDay_local MakeDay_of_day
  by (simp add: local_midnight_def)

lemma Date_ymd_local:
  "Date_ymd tza y m dt =
     TimeClip (local_midnight tza (MakeDay (if 0 \<le> y \<and> y \<le> 99 then 1900 + y else y) m dt))"
  by (simp add: Date_ymd_def local_midnight_def Let_def)

lemma formatDate_local:
  assumes "\<bar>D\<bar> \<le> 4000000" "\<bar>tza\<bar> \<le> msPerDay"
  shows "formatDate (TimeClip (local_midnight tza D)) = Inr (iso_date (D + (- tza) div msPerDay))"
  by (simp add: TimeClip_local [OF assms] formatDate_def Day_utc)

lemma DayFromYear_0: "DayFromYear 0 = - 719528"
  by (simp add: DayFromYear_def)

lemma DayFromYear_10000: "DayFromYear 10000 = 2932897"
  by (simp add: DayFromYear_def)

lemma year_range:
  assumes "DayFromYear a \<le> D" "D < DayFromYear b"
  shows "a \<le> YearFromDay D \<and> YearFromDay D < b"
proof (intro conjI)
  show "a \<le> YearFromDay D"
  proof (rule ccontr)
    assume "\<not> a \<le> YearFromDay D"
    then have "DayFromYear (YearFromDay D + 1) \<le> DayFromYear a"
      by (intro DayFromYear_mono) simp
    with YearFromDay_spec [of D] assms(1) show False by linarith
  qed
  show "YearFromDay D < b"
  proof (rule ccontr)
    assume "\<not> YearFromDay D < b"
    then have "DayFromYear b \<le> DayFromYear (YearFromDay D)"
      by (intro DayFromYear_mono) simp
    with YearFromDay_spec [of D] assms(2) show False by linarith
  qed
qed

lemma day_range:
  assumes "a \<le> YearFromDay D" "YearFromDay D < b"
  shows "DayFromYear a \<le> D \<and> D < DayFromYear b"
proof -
  have "DayFromYear a \<le> DayFromYear (YearFromDay D)"
    using assms(1) by (rule DayFromYear_mono)
  moreover have "DayFromYear (YearFromDay D + 1) \<le> DayFromYear b"
    using assms(2) by (intro DayFromYear_mono) simp
  ultimately show ?thesis using YearFromDay_spec [of D] by linarith
qed

lemma canon_day_year: "canon_day D \<Longrightarrow> 0 \<le> YearFromDay D \<and> YearFromDay D \<le> 9999"
  using year_range [of 0 D 10000] by (simp add: canon_day_def)

lemma canon_day_abs: "canon_day D \<Longrightarrow> \<bar>D\<bar> \<le> 3000000"
  unfolding canon_day_def DayFromYear_0 DayFromYear_10000 by arith

lemma parse_ymd_day:
  assumes "parse_ymd s = Some (y, m, d)"
  shows "canon_day (MakeDay y (m - 1) d) \<and> YearFromDay (MakeDay y (m - 1) d) = y
     \<and> MonthFromDay (MakeDay y (m - 1) d) = m - 1 \<and> DateFromDay (MakeDay y (m - 1) d) = d"
proof -
  note p = parse_ymd_Some [OF assms]
  have inv: "YearFromDay (MakeDay y (m - 1) d) = y \<and> MonthFromDay (MakeDay y (m - 1) d) = m - 1
     \<and> DateFromDay (MakeDay y (m - 1) d) = d"
    using p by (intro MakeDay_inverse) simp_all
  have "canon_day (MakeDay y (m - 1) d)"
    unfolding canon_day_def
    using day_range [of 0 "MakeDay y (m - 1) d" 10000] inv p by simp
  with inv show ?thesis by simp
qed

lemma parseDate_local:
  assumes "parse_ymd s = Some (y, m, d)" "\<bar>tza\<bar> \<le> msPerDay"
  shows "parseDate tza s = Time_Value (local_midnight tza (MakeDay y (m - 1) d))"
proof -
  have "\<bar>MakeDay y (m - 1) d\<bar> \<le> 4000000"
    using parse_ymd_day [OF assms(1)] canon_day_abs [of "MakeDay y (m - 1) d"] by simp
  then show ?thesis
    using TimeClip_local [OF _ assms(2), of "MakeDay y (m - 1) d"]
    by (simp add: parseDate_def assms(1) local_midnight_def)
qed

lemma parseDate_iso_date:
  assumes "canon_day D" "\<bar>tza\<bar> \<le> msPerDay"
  shows "parseDate tza (iso_date D) = Time_Value (local_midnight tza D)"
proof -
  have p: "parse_ymd (iso_date D) = Some (YearFromDay D, MonthFromDay D + 1, DateFromDay D)"
    using canon_day_year [OF assms(1)] by (intro parse_iso_date) simp_all
  have "MakeDay (YearFromDay D) (MonthFromDay D + 1 - 1) (DateFromDay D) = D"
    by (simp add: MakeDay_of_day)
  with parseDate_local [OF p assms(2)] show ?thesis by simp
qed

lemma bind_js_Inr: "bind_js (Inr x) f = f x"
  by (simp add: bind_js_def)

lemma WeekDay_range: "0 \<le> WeekDay D \<and> WeekDay D \<le> 6"
  by (simp add: WeekDay_def)

lemma week_start_day_range: "D - 6 \<le> week_start_day D \<and> week_start_day D \<le> D"
  using WeekDay_range [of D] by (simp add: week_start_day_def)

lemma getWeekStart_local:
  "getWeekStart tza (Time_Value (local_midnight tza D)) =
     TimeClip (local_midnight tza (week_start_day D))"
  unfolding getWeekStart_def JSDate.case getters_local Let_def setDate_local week_start_day_def
  by (simp add: algebra_simps)

lemma getWeekStart_canon:
  assumes "canon_day D" "\<bar>tza\<bar> \<le> msPerDay"
  shows "getWeekStart tza (Time_Value (local_midnight tza D)) =
     Time_Value (local_midnight tza (week_start_day D))"
proof -
  have "\<bar>week_start_day D\<bar> \<le> 4000000"
    using canon_day_abs [OF assms(1)] week_start_day_range [of D] by linarith
  then show ?thesis
    by (simp add: getWeekStart_local TimeClip_local assms(2))
qed

lemma getWeekEnd_canon:
  assumes "canon_day D" "\<bar>tza\<bar> \<le> msPerDay"
  shows "getWeekEnd tza (Time_Value (local_midnight tza D)) =
     Time_Value (local_midnight tza (week_start_day D + 6))"
proof -
  have r: "\<bar>week_start_day D + 6\<bar> \<le> 4000000"
    using canon_day_abs [OF assms(1)] week_start_day_range [of D] by linarith
  have "local_midnight tza (week_start_day D) + 6 * 24 * 60 * 60 * 1000 =
      local_midnight tza (week_start_day D + 6)"
    by (simp add: local_midnight_def msPerDay_def algebra_simps)
  then show ?thesis
    unfolding getWeekEnd_def getWeekStart_canon [OF assms] JSDate.case
    using TimeClip_local [OF r assms(2)] by simp
qed

lemma MakeDay_bound:
  assumes "0 \<le> y" "y \<le> 9999" "0 \<le> m" "m \<le> 12" "0 \<le> dt" "dt \<le> 1"
  shows "\<bar>MakeDay y m dt\<bar> \<le> 4000000"
proof -
  have y: "DayFromYear 0 \<le> DayFromYear y" "DayFromYear y \<le> DayFromYear 10000"
    using assms(1,2) by (auto intro: DayFromYear_mono)
  have off: "0 \<le> month_offset (InLeapYear y) m \<and> month_offset (InLeapYear y) m \<le> 366"
    by (simp add: month_offset_def)
  have "MakeDay y m dt = DayFromYear y + month_offset (InLeapYear y) m + dt - 1"
  proof (cases "m = 12")
    case True
    then show ?thesis by (simp add: MakeDay_12)
  next
    case False
    with assms(3,4) show ?thesis by (intro MakeDay_month) simp_all
  qed
  then show ?thesis
    using y off assms(5,6) unfolding DayFromYear_0 DayFromYear_10000 by linarith
qed

lemma Date_ymd_canon:
  assumes "0 \<le> y" "y \<le> 9999" "0 \<le> m" "m \<le> 12" "0 \<le> dt" "dt \<le> 1" "\<bar>tza\<bar> \<le> msPerDay"
  shows "\<exists>X. Date_ymd tza y m dt = Time_Value (local_midnight tza X) \<and> \<bar>X\<bar> \<le> 4000000"
proof -
  define yr where "yr = (if 0 \<le> y \<and> y \<le> 99 then 1900 + y else y)"
  have "0 \<le> yr" "yr \<le> 9999" using assms(1,2) by (simp_all add: yr_def)
  then have b: "\<bar>MakeDay yr m dt\<bar> \<le> 4000000"
    using assms(3-6) by (intro MakeDay_bound)
  have "Date_ymd tza y m dt = TimeClip (local_midnight tza (MakeDay yr m dt))"
    by (simp add: Date_ymd_local yr_def)
  with b show ?thesis
    using TimeClip_local [OF b assms(7)] by auto
qed

lemma formatDate_midnight_ok:
  "\<exists>s. formatDate (Time_Value (local_midnight tza X)) = Inr s"
  by (simp add: formatDate_def)

lemma month_bounds_ok:
  assumes "canon_day D" "\<bar>tza\<bar> \<le> msPerDay"
  shows "\<exists>s. formatDate (getMonthStart tza (Time_Value (local_midnight tza D))) = Inr s"
    and "\<exists>s. formatDate (getMonthEnd tza (Time_Value (local_midnight tza D))) = Inr s"
proof -
  note y = canon_day_year [OF assms(1)]
  note m = MonthFromDay_range [of D]
  from Date_ymd_canon [of "YearFromDay D" "MonthFromDay D" 1 tza] y m assms(2)
  obtain X where "Date_ymd tza (YearFromDay D) (MonthFromDay D) 1 =
      Time_Value (local_midnight tza X)"
    by auto
  then show "\<exists>s. formatDate (getMonthStart tza (Time_Value (local_midnight tza D))) = Inr s"
    by (simp add: getMonthStart_def getters_local formatDate_def)
  from Date_ymd_canon [of "YearFromDay D" "MonthFromDay D + 1" 0 tza] y m assms(2)
  obtain X' where "Date_ymd tza (YearFromDay D) (MonthFromDay D + 1) 0 =
      Time_Value (local_midnight tza X')"
    by auto
  then show "\<exists>s. formatDate (getMonthEnd tza (Time_Value (local_midnight tza D))) = Inr s"
    by (simp add: getMonthEnd_def getters_local formatDate_def)
qed

lemma valid_date_local:
  assumes "valid_date s" "\<bar>tza\<bar> \<le> msPerDay"
  shows "\<exists>D. canon_day D \<and> parseDate tza s = Time_Value (local_midnight tza D)"
proof -
  from assms(1) obtain y m d where p: "parse_ymd s = Some (y, m, d)"
    by (auto simp: valid_date_def)
  show ?thesis
    using parse_ymd_day [OF p] parseDate_local [OF p assms(2)] by blast
qed

lemma valid_date_nonempty: "valid_date s \<Longrightarrow> s \<noteq> []"
  by (auto simp: valid_date_def)

lemma weekStart_ok:
  assumes "valid_date s" "\<bar>tza\<bar> \<le> msPerDay"
  shows "\<exists>w. formatDate (getWeekStart tza (parseDate tza s)) = Inr w"
proof -
  from valid_date_local [OF assms] obtain D where D: "canon_day D"
    "parseDate tza s = Time_Value (local_midnight tza D)" by blast
  show ?thesis
    by (simp add: D(2) getWeekStart_canon [OF D(1) assms(2)] formatDate_def)
qed

lemma weeksUsed_loop_ok:
  assumes "list_all (\<lambda>a. valid_date (date a)) as" "\<bar>tza\<bar> \<le> msPerDay"
  shows "\<exists>W. weeksUsed_loop tza as S = Inr W"
  using assms(1)
proof (induction as arbitrary: S)
  case Nil
  show ?case by simp
next
  case (Cons a as)
  then have "valid_date (date a)" and rest: "list_all (\<lambda>a. valid_date (date a)) as"
    by simp_all
  from weekStart_ok [OF this(1) assms(2)] obtain w where
    "formatDate (getWeekStart tza (parseDate tza (date a))) = Inr w" ..
  then show ?case
    using Cons.IH [OF rest, of "Set_add w S"] by (simp add: bind_js_Inr)
qed

lemma list_all_filter: "list_all P xs \<Longrightarrow> list_all P (filter Q xs)"
  by (induction xs) simp_all

lemma calculateQuotas_ok:
  assumes "valid_date s" "list_all (\<lambda>a. valid_date (date a)) as" "\<bar>tza\<bar> \<le> msPerDay"
  shows "\<exists>q. calculateQuotas tza now lts as ltId (Some s) = Inr q"
proof (cases "find (\<lambda>lt. id_lt lt = ltId) lts")
  case None
  then show ?thesis by (simp add: calculateQuotas_def)
next
  case (Some C)
  from valid_date_local [OF assms(1,3)] obtain D where D: "canon_day D"
    "parseDate tza s = Time_Value (local_midnight tza D)" by blast
  have ne: "s \<noteq> []" using assms(1) by (rule valid_date_nonempty)
  obtain ws where ws: "formatDate (getWeekStart tza (Time_Value (local_midnight tza D))) = Inr ws"
    by (simp add: getWeekStart_canon [OF D(1) assms(3)] formatDate_def)
  obtain we where we: "formatDate (getWeekEnd tza (Time_Value (local_midnight tza D))) = Inr we"
    by (simp add: getWeekEnd_canon [OF D(1) assms(3)] formatDate_def)
  from month_bounds_ok [OF D(1) assms(3)] obtain ms me where
    ms: "formatDate (getMonthStart tza (Time_Value (local_midnight tza D))) = Inr ms"
    and me: "formatDate (getMonthEnd tza (Time_Value (local_midnight tza D))) = Inr me"
    by blast
  have "list_all (\<lambda>a. valid_date (date a))
      (filter (\<lambda>a. leaveTypeId a = ltId \<and> isDateInRange (date a) ms me) as)"
    using assms(2) by (intro list_all_filter)
  from weeksUsed_loop_ok [OF this assms(3), of "[]"] obtain W where
    W: "weeksUsed_loop tza
      (filter (\<lambda>a. leaveTypeId a = ltId \<and> isDateInRange (date a) ms me) as) [] = Inr W"
    ..
  show ?thesis
    unfolding calculateQuotas_def Some option.case Let_def
    by (simp add: ne D(2) ws we ms me W bind_js_Inr)
qed

lemma weeksPerMonthCheck_ok:
  assumes "valid_date s" "list_all (\<lambda>a. valid_date (date a)) as" "\<bar>tza\<bar> \<le> msPerDay"
  shows "\<exists>r. weeksPerMonthCheck tza as ltId s wpm = Inr r"
proof -
  from valid_date_local [OF assms(1,3)] obtain D where D: "canon_day D"
    "parseDate tza s = Time_Value (local_midnight tza D)" by blast
  obtain ws where ws: "formatDate (getWeekStart tza (Time_Value (local_midnight tza D))) = Inr ws"
    by (simp add: getWeekStart_canon [OF D(1) assms(3)] formatDate_def)
  from month_bounds_ok [OF D(1) assms(3)] obtain ms me where
    ms: "formatDate (getMonthStart tza (Time_Value (local_midnight tza D))) = Inr ms"
    and me: "formatDate (getMonthEnd tza (Time_Value (local_midnight tza D))) = Inr me"
    by blast
  have "list_all (\<lambda>a. valid_date (date a))
      (filter (\<lambda>a. leaveTypeId a = ltId \<and> isDateInRange (date a) ms me) as)"
    using assms(2) by (intro list_all_filter)
  from weeksUsed_loop_ok [OF this assms(3), of "[]"] obtain W where
    W: "weeksUsed_loop tza
      (filter (\<lambda>a. leaveTypeId a = ltId \<and> isDateInRange (date a) ms me) as) [] = Inr W"
    ..
  show ?thesis
    unfolding weeksPerMonthCheck_def monthlyWeeksUsed_def Let_def
    by (simp add: D(2) ws ms me W bind_js_Inr)
qed

lemma isLeaveEligibleForDate_ok:
  assumes "valid_date s" "list_all (\<lambda>a. valid_date (date a)) as" "\<bar>tza\<bar> \<le> msPerDay"
  shows "\<exists>r. isLeaveEligibleForDate tza now lts as ltId s = Inr r"
proof (cases "find (\<lambda>lt. id_lt lt = ltId) lts")
  case None
  then show ?thesis by (simp add: isLeaveEligibleForDate_def)
next
  case (Some C)
  from calculateQuotas_ok [OF assms] obtain q where
    q: "calculateQuotas tza now lts as ltId (Some s) = Inr q" ..
  from weeksPerMonthCheck_ok [OF assms] have
    w: "\<And>wpm. \<exists>r. weeksPerMonthCheck tza as ltId s wpm = Inr r" .
  show ?thesis
    unfolding eligibility_unfold [OF Some] q bind_js_Inr
    using w by (auto split: option.splits)
qed

lemma MakeDay_day: "MakeDay y m dt = MakeDay y m 1 + dt - 1"
  by (simp add: MakeDay_def Let_def)

lemma MakeDay_next_month: "MakeDay y (m + 1) 1 = MakeDay y m 1 + DaysInMonth y m"
  by (simp add: DaysInMonth_def)


lemma DaysInMonth_carry: "DaysInMonth y m = DaysInMonth (y + m div 12) (m mod 12)"
proof -
  define y' where "y' = y + m div 12"
  define m' where "m' = m mod 12"
  have m': "0 \<le> m'" "m' \<le> 11" by (simp_all add: m'_def)
  have a: "MakeDay y m 1 = MakeDay y' m' 1"
    unfolding y'_def m'_def by (rule MakeDay_carry)
  have dv: "(m + 1) div 12 = m div 12 + (if (m + 1) mod 12 = 0 then 1 else 0)"
    by (rule div_succ) simp
  have md: "(m + 1) mod 12 = (m' + 1) mod 12"
    unfolding m'_def by (simp add: mod_add_left_eq)
  have b: "MakeDay y (m + 1) 1 = MakeDay y' (m' + 1) 1"
  proof (cases "m' = 11")
    case True
    then have "(m + 1) mod 12 = 0" using md by simp
    then have "MakeDay y (m + 1) 1 = MakeDay (y' + 1) 0 1"
      using MakeDay_carry [of y "m + 1" 1] dv by (simp add: y'_def add.assoc)
    also have "\<dots> = MakeDay y' 12 1"
      using MakeDay_carry [of y' 12 1] by simp
    finally show ?thesis using True by simp
  next
    case False
    with m' have "(m' + 1) mod 12 = m' + 1" by simp
    then have "(m + 1) mod 12 = m' + 1" using md by simp
    moreover from this m' have "(m + 1) div 12 = m div 12" using dv by simp
    ultimately show ?thesis
      using MakeDay_carry [of y "m + 1" 1] by (simp add: y'_def)
  qed
  show ?thesis
    unfolding DaysInMonth_def a b y'_def [symmetric] m'_def [symmetric] by simp
qed

lemma DaysInMonth_range_general: "28 \<le> DaysInMonth y m \<and> DaysInMonth y m \<le> 31"
  unfolding DaysInMonth_carry [of y m] by (rule DaysInMonth_range) simp_all



lemma week_start_day_Monday:
  "WeekDay (week_start_day D) = 1"
proof -
  have "(D + 4 - (D + 4) mod 7) mod 7 = 0"
    by (simp add: minus_mod_eq_mult_div)
  then have a: "(D + 4 - (D + 4) mod 7 + 1) mod 7 = 1" "(D + 4 - (D + 4) mod 7 - 6) mod 7 = 1"
    by presburger+
  show ?thesis
  proof (cases "WeekDay D = 0")
    case True
    then show ?thesis
      using a(2) by (simp add: week_start_day_def WeekDay_def algebra_simps)
  next
    case False
    then show ?thesis
      using a(1) by (simp add: week_start_day_def WeekDay_def algebra_simps)
  qed
qed

section \<open>Date strings and days, on a host at or west of UTC\<close>

lemma valid_date_day_of:
  assumes "valid_date s" "\<bar>tza\<bar> \<le> msPerDay"
  shows "canon_day (day_of s) \<and> parseDate tza s = Time_Value (local_midnight tza (day_of s))"
proof -
  from assms(1) obtain y m d where p: "parse_ymd s = Some (y, m, d)"
    by (auto simp: valid_date_def)
  show ?thesis
    using parse_ymd_day [OF p] parseDate_local [OF p assms(2)] by (simp add: day_of_def p)
qed

lemma formatDate_west:
  assumes "- msPerDay < tza" "tza \<le> 0"
  shows "formatDate (Time_Value (local_midnight tza X)) = Inr (iso_date X)"
  by (simp add: formatDate_def Day_utc_west [OF assms])

lemma weekStart_west:
  assumes "valid_date s" "- msPerDay < tza" "tza \<le> 0"
  shows "formatDate (getWeekStart tza (parseDate tza s)) = Inr (iso_date (week_start_day (day_of s)))"
proof -
  have tz: "\<bar>tza\<bar> \<le> msPerDay" using assms(2,3) by simp
  note v = valid_date_day_of [OF assms(1) tz]
  show ?thesis
    using v getWeekStart_canon [of "day_of s" tza] tz
    by (simp add: formatDate_west [OF assms(2,3)])
qed

lemma month_bounds_west:
  assumes "canon_day D" "100 \<le> YearFromDay D" "- msPerDay < tza" "tza \<le> 0"
  shows "formatDate (getMonthStart tza (Time_Value (local_midnight tza D))) =
           Inr (iso_date (month_first_day D))"
    and "formatDate (getMonthEnd tza (Time_Value (local_midnight tza D))) =
           Inr (iso_date (month_last_day D))"
proof -
  have tz: "\<bar>tza\<bar> \<le> msPerDay" using assms(3,4) by simp
  note y = canon_day_year [OF assms(1)]
  note m = MonthFromDay_range [of D]
  have yr: "(if 0 \<le> YearFromDay D \<and> YearFromDay D \<le> 99 then 1900 + YearFromDay D
             else YearFromDay D) = YearFromDay D"
    using assms(2) by simp
  have b1: "\<bar>MakeDay (YearFromDay D) (MonthFromDay D) 1\<bar> \<le> 4000000"
    using y m by (intro MakeDay_bound) simp_all
  have b2: "\<bar>MakeDay (YearFromDay D) (MonthFromDay D + 1) 0\<bar> \<le> 4000000"
    using y m by (intro MakeDay_bound) simp_all
  have e: "MakeDay (YearFromDay D) (MonthFromDay D + 1) 0 = month_last_day D"
    using MakeDay_day [of "YearFromDay D" "MonthFromDay D + 1" 0] by (simp add: month_last_day_def)
  show "formatDate (getMonthStart tza (Time_Value (local_midnight tza D))) =
           Inr (iso_date (month_first_day D))"
    unfolding getMonthStart_def JSDate.case getters_local Date_ymd_local yr
      TimeClip_local [OF b1 tz] formatDate_west [OF assms(3,4)] month_first_day_def
    by (rule refl)
  show "formatDate (getMonthEnd tza (Time_Value (local_midnight tza D))) =
           Inr (iso_date (month_last_day D))"
    unfolding getMonthEnd_def JSDate.case getters_local Date_ymd_local yr
    using TimeClip_local [OF b2 tz] by (simp add: e formatDate_west [OF assms(3,4)])
qed

lemma weeksUsed_loop_set:
  assumes "list_all (\<lambda>a. valid_date (date a)) xs" "- msPerDay < tza" "tza \<le> 0"
  shows "\<exists>W. weeksUsed_loop tza xs S = Inr W
     \<and> set W = set S \<union> (\<lambda>a. iso_date (week_start_day (day_of (date a)))) ` set xs"
  using assms(1)
proof (induction xs arbitrary: S)
  case Nil
  show ?case by simp
next
  case (Cons a xs)
  then have va: "valid_date (date a)" and rest: "list_all (\<lambda>a. valid_date (date a)) xs"
    by simp_all
  from Cons.IH [OF rest, of "Set_add (iso_date (week_start_day (day_of (date a)))) S"]
  obtain W where W: "weeksUsed_loop tza xs
        (Set_add (iso_date (week_start_day (day_of (date a)))) S) = Inr W"
    "set W = set (Set_add (iso_date (week_start_day (day_of (date a)))) S)
       \<union> (\<lambda>a. iso_date (week_start_day (day_of (date a)))) ` set xs"
    by blast
  have "set (Set_add (iso_date (week_start_day (day_of (date a)))) S) =
      insert (iso_date (week_start_day (day_of (date a)))) (set S)"
    by (auto simp: Set_add_def)
  with W show ?case
    by (simp add: weekStart_west [OF va assms(2,3)] bind_js_Inr)
qed

lemma digit_char_less:
  assumes "0 \<le> k" "k \<le> 9" "0 \<le> k'" "k' \<le> 9"
  shows "(digit_char k < digit_char k') = (k < k')"
  using assms by (simp add: less_char_def of_char_nat_digit_char)

lemma digit_char_eq:
  assumes "0 \<le> k" "k \<le> 9" "0 \<le> k'" "k' \<le> 9"
  shows "(digit_char k = digit_char k') = (k = k')"
proof
  assume "digit_char k = digit_char k'"
  then have "digit_val (digit_char k) = digit_val (digit_char k')" by simp
  then show "k = k'" using assms by (simp add: digit_val_digit_char)
qed simp

lemma append_less_append:
  fixes xs ys :: "'a::linorder list"
  assumes "length xs = length ys"
  shows "(xs @ u < ys @ v) = (xs < ys \<or> xs = ys \<and> u < v)"
  using assms by (induction xs ys rule: list_induct2) auto

lemma length_pad: "length (pad w n) = w"
  by (induction w arbitrary: n) simp_all

lemma divmod_lex:
  fixes n n' :: int
  shows "(n < n') = (n div 10 < n' div 10 \<or> n div 10 = n' div 10 \<and> n mod 10 < n' mod 10)"
proof -
  define q r q' r' where "q = n div 10" and "r = n mod 10" and "q' = n' div 10" and "r' = n' mod 10"
  have n: "n = 10 * q + r" "n' = 10 * q' + r'" by (simp_all add: q_def r_def q'_def r'_def)
  have b: "0 \<le> r" "r \<le> 9" "0 \<le> r'" "r' \<le> 9"
    using mod10_range [of n] mod10_range [of n'] by (simp_all add: r_def r'_def)
  show ?thesis
    unfolding q_def [symmetric] r_def [symmetric] q'_def [symmetric] r'_def [symmetric]
    unfolding n using b by arith
qed

lemma divmod_eq:
  fixes n n' :: int
  shows "(n = n') = (n div 10 = n' div 10 \<and> n mod 10 = n' mod 10)"
  by (metis div_mult_mod_eq)

lemma pad_order:
  "(pad w n < pad w n') = (n mod 10 ^ w < n' mod 10 ^ w)
   \<and> (pad w n = pad w n') = (n mod 10 ^ w = n' mod 10 ^ w)"
proof (induction w arbitrary: n n')
  case 0
  show ?case by simp
next
  case (Suc w)
  have m: "\<And>k::int. k mod 10 ^ Suc w div 10 = k div 10 mod 10 ^ w"
    "\<And>k::int. k mod 10 ^ Suc w mod 10 = k mod 10"
  proof -
    fix k :: int
    show "k mod 10 ^ Suc w div 10 = k div 10 mod 10 ^ w"
      by (simp add: div_mod_decomp_int zmod_zmult2_eq algebra_simps)
    show "k mod 10 ^ Suc w mod 10 = k mod 10"
      by (simp add: mod_mod_cancel)
  qed
  have d: "(digit_char (n mod 10) < digit_char (n' mod 10)) = (n mod 10 < n' mod 10)"
    "(digit_char (n mod 10) = digit_char (n' mod 10)) = (n mod 10 = n' mod 10)"
    using mod10_range [of n] mod10_range [of n']
    by (simp_all add: digit_char_less digit_char_eq)
  have len: "length (pad w (n div 10)) = length (pad w (n' div 10))"
    by (simp add: length_pad)
  have lt: "(pad (Suc w) n < pad (Suc w) n') =
      (n div 10 mod 10 ^ w < n' div 10 mod 10 ^ w
        \<or> n div 10 mod 10 ^ w = n' div 10 mod 10 ^ w \<and> n mod 10 < n' mod 10)"
    using Suc.IH [of "n div 10" "n' div 10"] d
    by (simp add: append_less_append [OF len])
  have eq: "(pad (Suc w) n = pad (Suc w) n') =
      (n div 10 mod 10 ^ w = n' div 10 mod 10 ^ w \<and> n mod 10 = n' mod 10)"
    using Suc.IH [of "n div 10" "n' div 10"] d by simp
  show ?case
    unfolding lt eq
    using divmod_lex [of "n mod 10 ^ Suc w" "n' mod 10 ^ Suc w"]
      divmod_eq [of "n mod 10 ^ Suc w" "n' mod 10 ^ Suc w"]
    unfolding m by simp
qed

lemma pad_less:
  assumes "0 \<le> n" "n < 10 ^ w" "0 \<le> n'" "n' < 10 ^ w"
  shows "(pad w n < pad w n') = (n < n')" "(pad w n = pad w n') = (n = n')"
  using pad_order [of w n n'] assms by simp_all

lemma iso_date_canon:
  assumes "canon_day D"
  shows "iso_date D =
     pad 4 (YearFromDay D) @ CHR ''-'' # pad 2 (MonthFromDay D + 1) @ CHR ''-'' # pad 2 (DateFromDay D)"
  using canon_day_year [OF assms] by (simp add: iso_date_def format_year_def)

lemma iso_date_less_fields:
  assumes "canon_day D" "canon_day D'"
  shows "(iso_date D < iso_date D') =
     (YearFromDay D < YearFromDay D'
      \<or> YearFromDay D = YearFromDay D'
        \<and> (MonthFromDay D < MonthFromDay D'
           \<or> MonthFromDay D = MonthFromDay D' \<and> DateFromDay D < DateFromDay D'))"
proof -
  note y = canon_day_year [OF assms(1)] canon_day_year [OF assms(2)]
  note m = MonthFromDay_range [of D] MonthFromDay_range [of D']
  have dt: "1 \<le> DateFromDay D \<and> DateFromDay D \<le> 31" "1 \<le> DateFromDay D' \<and> DateFromDay D' \<le> 31"
    using DateFromDay_range [of D] DateFromDay_range [of D'] m
      DaysInMonth_range [of "MonthFromDay D" "YearFromDay D"]
      DaysInMonth_range [of "MonthFromDay D'" "YearFromDay D'"]
    by simp_all
  have Y: "(pad 4 (YearFromDay D) < pad 4 (YearFromDay D')) = (YearFromDay D < YearFromDay D')"
    "(pad 4 (YearFromDay D) = pad 4 (YearFromDay D')) = (YearFromDay D = YearFromDay D')"
    using y by (simp_all add: pad_less)
  have M: "(pad 2 (MonthFromDay D + 1) < pad 2 (MonthFromDay D' + 1)) =
        (MonthFromDay D < MonthFromDay D')"
    "(pad 2 (MonthFromDay D + 1) = pad 2 (MonthFromDay D' + 1)) =
        (MonthFromDay D = MonthFromDay D')"
    using m by (auto simp: pad_less)
  have T: "(pad 2 (DateFromDay D) < pad 2 (DateFromDay D')) = (DateFromDay D < DateFromDay D')"
    using dt by (simp add: pad_less)
  have l4: "length (pad 4 (YearFromDay D)) = length (pad 4 (YearFromDay D'))"
    and l2: "length (pad 2 (MonthFromDay D + 1)) = length (pad 2 (MonthFromDay D' + 1))"
    by (simp_all add: length_pad)
  show ?thesis
    unfolding iso_date_canon [OF assms(1)] iso_date_canon [OF assms(2)]
      append_less_append [OF l4] Cons_less_Cons append_less_append [OF l2] Y M T
    by simp
qed

lemma month_offset_le:
  assumes "0 \<le> m" "m \<le> m'" "m' \<le> 12"
  shows "month_offset L m \<le> month_offset L m'"
  using assms(2,1,3)
proof (induction m' rule: int_ge_induct)
  case base
  show ?case by simp
next
  case (step i)
  then have "0 \<le> i" "i \<le> 11" by simp_all
  from month_offset_mono [OF this, of L] step show ?case by simp
qed

lemma day_as_fields:
  "D = DayFromYear (YearFromDay D) + month_offset (InLeapYear (YearFromDay D)) (MonthFromDay D)
         + DateFromDay D - 1"
  by (simp add: DateFromDay_def DayWithinYear_def)

lemma fields_less_day:
  assumes "YearFromDay D < YearFromDay D'
      \<or> YearFromDay D = YearFromDay D'
        \<and> (MonthFromDay D < MonthFromDay D'
           \<or> MonthFromDay D = MonthFromDay D' \<and> DateFromDay D < DateFromDay D')"
  shows "D < D'"
proof -
  consider (y) "YearFromDay D < YearFromDay D'"
    | (m) "YearFromDay D = YearFromDay D'" "MonthFromDay D < MonthFromDay D'"
    | (d) "YearFromDay D = YearFromDay D'" "MonthFromDay D = MonthFromDay D'"
        "DateFromDay D < DateFromDay D'"
    using assms by blast
  then show ?thesis
  proof cases
    case y
    then have "DayFromYear (YearFromDay D + 1) \<le> DayFromYear (YearFromDay D')"
      by (intro DayFromYear_mono) simp
    then show ?thesis
      using YearFromDay_spec [of D] YearFromDay_spec [of D'] by linarith
  next
    case m
    have "month_offset (InLeapYear (YearFromDay D)) (MonthFromDay D + 1)
        \<le> month_offset (InLeapYear (YearFromDay D)) (MonthFromDay D')"
      using m(2) MonthFromDay_range [of D] MonthFromDay_range [of D']
      by (intro month_offset_le) simp_all
    then have "DayWithinYear D < DayWithinYear D'"
      using MonthFromDay_bounds [of D] MonthFromDay_bounds [of D'] m(1) by simp
    then show ?thesis by (simp add: DayWithinYear_def m(1))
  next
    case d
    show ?thesis
      using day_as_fields [of D] day_as_fields [of D'] d by simp
  qed
qed

lemma fields_eq_day:
  assumes "YearFromDay D = YearFromDay D'" "MonthFromDay D = MonthFromDay D'"
    "DateFromDay D = DateFromDay D'"
  shows "D = D'"
  using day_as_fields [of D] day_as_fields [of D'] assms by simp

lemma iso_date_less_iff:
  assumes "canon_day D" "canon_day D'"
  shows "(iso_date D < iso_date D') = (D < D')"
proof
  assume "iso_date D < iso_date D'"
  then show "D < D'"
    unfolding iso_date_less_fields [OF assms] by (rule fields_less_day)
next
  assume lt: "D < D'"
  show "iso_date D < iso_date D'"
  proof (rule ccontr)
    assume n: "\<not> iso_date D < iso_date D'"
    then have "YearFromDay D' < YearFromDay D
      \<or> YearFromDay D' = YearFromDay D
        \<and> (MonthFromDay D' < MonthFromDay D
           \<or> MonthFromDay D' = MonthFromDay D \<and> DateFromDay D' \<le> DateFromDay D)"
      unfolding iso_date_less_fields [OF assms] by auto
    then consider "D' < D" | "D' = D"
      using fields_less_day [of D' D] fields_eq_day [of D' D]
      by (cases "DateFromDay D' = DateFromDay D") auto
    then show False using lt by cases simp_all
  qed
qed

lemma iso_date_le_iff:
  assumes "canon_day D" "canon_day D'"
  shows "(iso_date D \<le> iso_date D') = (D \<le> D')"
  using iso_date_less_iff [OF assms(2,1)] by (simp add: not_less [symmetric])

lemma iso_date_inj:
  assumes "canon_day D" "canon_day D'" "iso_date D = iso_date D'"
  shows "D = D'"
  using iso_date_le_iff [OF assms(1,2)] iso_date_le_iff [OF assms(2,1)] assms(3) by simp

lemma digit_char_digit_val: "digit_char (digit_val c) = c"
  by (simp add: digit_char_def digit_val_def)

lemma divmod10:
  fixes q r :: int
  assumes "0 \<le> r" "r \<le> 9"
  shows "(10 * q + r) div 10 = q" "(10 * q + r) mod 10 = r"
  using assms by simp_all

lemma pad2_digits:
  assumes "0 \<le> a" "a \<le> 9" "0 \<le> b" "b \<le> 9"
  shows "pad 2 (10 * a + b) = [digit_char a, digit_char b]"
  using assms by (simp add: pad2 divmod10)

lemma pad4_digits:
  assumes "0 \<le> a" "a \<le> 9" "0 \<le> b" "b \<le> 9" "0 \<le> c" "c \<le> 9" "0 \<le> e" "e \<le> 9"
  shows "pad 4 (1000 * a + 100 * b + 10 * c + e) =
     [digit_char a, digit_char b, digit_char c, digit_char e]"
proof -
  define n where "n = 1000 * a + 100 * b + 10 * c + e"
  have n1: "n = 10 * (100 * a + 10 * b + c) + e" by (simp add: n_def)
  have d1: "n div 10 = 100 * a + 10 * b + c"
    by (subst n1) (rule divmod10(1) [OF assms(7,8)])
  have m1: "n mod 10 = e"
    by (subst n1) (rule divmod10(2) [OF assms(7,8)])
  have n2: "n div 10 = 10 * (10 * a + b) + c" by (simp add: d1)
  have d2: "n div 100 = 10 * a + b"
    unfolding div_10_10 [symmetric] by (subst n2) (rule divmod10(1) [OF assms(5,6)])
  have m2: "n div 10 mod 10 = c"
    by (subst n2) (rule divmod10(2) [OF assms(5,6)])
  have d3: "n div 1000 = a"
    unfolding div_100_10 [symmetric] by (subst d2) (rule divmod10(1) [OF assms(3,4)])
  have m3: "n div 100 mod 10 = b"
    by (subst d2) (rule divmod10(2) [OF assms(3,4)])
  have m4: "n div 1000 mod 10 = a"
    unfolding d3 using assms(1,2) by simp
  show ?thesis
    unfolding n_def [symmetric] pad4 m1 m2 m3 m4 by (rule refl)
qed

lemma iso_date_day_of:
  assumes "valid_date s"
  shows "iso_date (day_of s) = s"
proof -
  from assms obtain y m d where p: "parse_ymd s = Some (y, m, d)"
    by (auto simp: valid_date_def)
  from p obtain y1 y2 y3 y4 h1 m1 m2 h2 d1 d2 where
    s: "s = [y1, y2, y3, y4, h1, m1, m2, h2, d1, d2]"
    by (cases s rule: parse_ymd.cases) simp_all
  from p have h: "h1 = CHR ''-''" "h2 = CHR ''-''"
    and dig: "is_digit y1" "is_digit y2" "is_digit y3" "is_digit y4"
      "is_digit m1" "is_digit m2" "is_digit d1" "is_digit d2"
    and y: "y = 1000 * digit_val y1 + 100 * digit_val y2 + 10 * digit_val y3 + digit_val y4"
    and m: "m = 10 * digit_val m1 + digit_val m2"
    and d: "d = 10 * digit_val d1 + digit_val d2"
    unfolding s by (auto simp: Let_def split: if_splits)
  note r = dig [THEN is_digit_val]
  have py: "pad 4 y = [y1, y2, y3, y4]"
    unfolding y using r(1-4) by (simp add: pad4_digits digit_char_digit_val)
  have pm: "pad 2 m = [m1, m2]"
    unfolding m using r(5,6) by (simp add: pad2_digits digit_char_digit_val)
  have pd: "pad 2 d = [d1, d2]"
    unfolding d using r(7,8) by (simp add: pad2_digits digit_char_digit_val)
  note f = parse_ymd_day [OF p]
  have D: "day_of s = MakeDay y (m - 1) d" by (simp add: day_of_def p)
  have "iso_date (MakeDay y (m - 1) d) = pad 4 y @ CHR ''-'' # pad 2 m @ CHR ''-'' # pad 2 d"
    using f iso_date_canon [of "MakeDay y (m - 1) d"] by simp
  then show ?thesis
    unfolding D by (simp add: py pm pd s h)
qed

lemma in_range_days:
  assumes "valid_date s" "canon_day F" "canon_day L"
  shows "isDateInRange s (iso_date F) (iso_date L) = (F \<le> day_of s \<and> day_of s \<le> L)"
proof -
  have c: "canon_day (day_of s)"
    using valid_date_day_of [OF assms(1), of 0] by (simp add: msPerDay_def)
  have "isDateInRange (iso_date (day_of s)) (iso_date F) (iso_date L) =
      (F \<le> day_of s \<and> day_of s \<le> L)"
    by (simp add: isDateInRange_def iso_date_le_iff [OF assms(2) c] iso_date_le_iff [OF c assms(3)])
  then show ?thesis by (simp only: iso_date_day_of [OF assms(1)])
qed

lemma month_first_last:
  "month_last_day D = month_first_day D + DaysInMonth (YearFromDay D) (MonthFromDay D) - 1"
  by (simp add: month_last_day_def month_first_day_def MakeDay_next_month)

lemma in_month_iff:
  "(month_first_day D \<le> X \<and> X \<le> month_last_day D) =
     (YearFromDay X = YearFromDay D \<and> MonthFromDay X = MonthFromDay D)"
proof
  assume a: "month_first_day D \<le> X \<and> X \<le> month_last_day D"
  define dt where "dt = X - month_first_day D + 1"
  have X: "X = MakeDay (YearFromDay D) (MonthFromDay D) dt"
    using MakeDay_day [of "YearFromDay D" "MonthFromDay D" dt]
    by (simp add: dt_def month_first_day_def)
  have "1 \<le> dt" "dt \<le> DaysInMonth (YearFromDay D) (MonthFromDay D)"
    using a by (simp_all add: dt_def month_first_last)
  from MakeDay_inverse [OF _ _ this] MonthFromDay_range [of D]
  show "YearFromDay X = YearFromDay D \<and> MonthFromDay X = MonthFromDay D"
    unfolding X by simp
next
  assume a: "YearFromDay X = YearFromDay D \<and> MonthFromDay X = MonthFromDay D"
  have "X = month_first_day D + DateFromDay X - 1"
    using MakeDay_of_day [of X "DateFromDay X"] MakeDay_day [of "YearFromDay X" "MonthFromDay X" "DateFromDay X"]
    by (simp add: month_first_day_def a)
  then show "month_first_day D \<le> X \<and> X \<le> month_last_day D"
    using DateFromDay_range [of X] by (simp add: month_first_last a)
qed

lemma month_first_last_canon:
  assumes "canon_day D"
  shows "canon_day (month_first_day D)" "canon_day (month_last_day D)"
proof -
  have s: "YearFromDay (month_first_day D) = YearFromDay D"
    "YearFromDay (month_last_day D) = YearFromDay D"
    using in_month_iff [of D "month_first_day D"] in_month_iff [of D "month_last_day D"]
      month_first_last [of D] DaysInMonth_range_general [of "YearFromDay D" "MonthFromDay D"]
    by simp_all
  note y = canon_day_year [OF assms]
  show "canon_day (month_first_day D)"
    unfolding canon_day_def using day_range [of 0 "month_first_day D" 10000] s(1) y by simp
  show "canon_day (month_last_day D)"
    unfolding canon_day_def using day_range [of 0 "month_last_day D" 10000] s(2) y by simp
qed

lemma DayFromYear_100: "DayFromYear 100 = - 683003"
  by (simp add: DayFromYear_def)

lemma week_start_canon:
  assumes "canon_day X" "100 \<le> YearFromDay X"
  shows "canon_day (week_start_day X)"
proof -
  have "DayFromYear 100 \<le> X"
    using day_range [of 100 X "YearFromDay X + 1"] assms(2) by simp
  then show ?thesis
    using assms(1) week_start_day_range [of X]
    by (simp add: canon_day_def DayFromYear_0 DayFromYear_100)
qed

lemma monthlyWeeksUsed_west:
  assumes "- msPerDay < tza" "tza \<le> 0" "valid_date d" "100 \<le> YearFromDay (day_of d)"
    and "list_all (\<lambda>a. valid_date (date a)) as"
  shows "\<exists>W. monthlyWeeksUsed tza as ltId d = Inr W \<and> distinct W
     \<and> set W = iso_date ` weeks_used_in_month as ltId (day_of d)"
proof -
  define D where "D = day_of d"
  have tz: "\<bar>tza\<bar> \<le> msPerDay" using assms(1,2) by simp
  have D: "canon_day D" "parseDate tza d = Time_Value (local_midnight tza D)"
    using valid_date_day_of [OF assms(3) tz] by (simp_all add: D_def)
  note mb = month_bounds_west [OF D(1) assms(4) [folded D_def] assms(1,2)]
  note fl = month_first_last_canon [OF D(1)]
  have flt: "filter (\<lambda>a. leaveTypeId a = ltId
        \<and> isDateInRange (date a) (iso_date (month_first_day D)) (iso_date (month_last_day D))) as =
      filter (\<lambda>a. leaveTypeId a = ltId
                  \<and> YearFromDay (day_of (date a)) = YearFromDay D
                  \<and> MonthFromDay (day_of (date a)) = MonthFromDay D) as"
  proof (rule filter_cong [OF refl])
    fix a assume "a \<in> set as"
    then have "valid_date (date a)" using assms(5) by (simp add: list_all_iff)
    then show "(leaveTypeId a = ltId
        \<and> isDateInRange (date a) (iso_date (month_first_day D)) (iso_date (month_last_day D))) =
      (leaveTypeId a = ltId \<and> YearFromDay (day_of (date a)) = YearFromDay D
                  \<and> MonthFromDay (day_of (date a)) = MonthFromDay D)"
      by (simp add: in_range_days [OF _ fl] in_month_iff)
  qed
  have "list_all (\<lambda>a. valid_date (date a))
      (filter (\<lambda>a. leaveTypeId a = ltId
                  \<and> YearFromDay (day_of (date a)) = YearFromDay D
                  \<and> MonthFromDay (day_of (date a)) = MonthFromDay D) as)"
    using assms(5) by (rule list_all_filter)
  from weeksUsed_loop_set [OF this assms(1,2), of "[]"] obtain W where
    W: "weeksUsed_loop tza
      (filter (\<lambda>a. leaveTypeId a = ltId
                  \<and> YearFromDay (day_of (date a)) = YearFromDay D
                  \<and> MonthFromDay (day_of (date a)) = MonthFromDay D) as) [] = Inr W"
    "set W = iso_date ` weeks_used_in_month as ltId D"
    by (auto simp: weeks_used_in_month_def image_image)
  have m: "monthlyWeeksUsed tza as ltId d = Inr W"
    unfolding monthlyWeeksUsed_def Let_def D(2) mb bind_js_Inr flt by (rule W(1))
  show ?thesis
    using m W(2) monthlyWeeksUsed_distinct [OF m] by (auto simp: D_def)
qed

lemma weeks_used_canon:
  assumes "list_all (\<lambda>a. valid_date (date a)) as" "100 \<le> YearFromDay D"
    and "X \<in> weeks_used_in_month as ltId D"
  shows "canon_day X"
proof -
  from assms(3) obtain a where a: "a \<in> set as" "X = week_start_day (day_of (date a))"
    "YearFromDay (day_of (date a)) = YearFromDay D"
    by (auto simp: weeks_used_in_month_def)
  have "valid_date (date a)" using a(1) assms(1) by (simp add: list_all_iff)
  then have "canon_day (day_of (date a))"
    using valid_date_day_of [of "date a" 0] by (simp add: msPerDay_def)
  then show ?thesis
    unfolding a(2) using assms(2) a(3) by (intro week_start_canon) simp_all
qed

lemma weeksPerMonth_computed:
  assumes "find (\<lambda>lt. id_lt lt = ltId) lts = Some C"
    and "weeks_per_month (quotas (rules C)) = Some wpm"
    and "calculateQuotas tza now lts as ltId (Some d) = Inr q"
    and "monthlyWeeksUsed tza as ltId d = Inr W"
    and "formatDate (getWeekStart tza (parseDate tza d)) = Inr w"
  shows "(isLeaveEligibleForDate tza now lts as ltId d =
           Inr \<lparr>eligible = False, reason = Some ''Monthly week limit exceeded''\<rparr>) =
        (window_ok C d \<and> day_ok tza C d \<and> \<not> date_occupied as d
          \<and> \<not> weekly_exceeded C q \<and> \<not> total_exceeded C q
          \<and> w \<notin> set W \<and> max_weeks wpm \<le> int (length W))"
proof -
  have wc: "weeksPerMonthCheck tza as ltId d wpm =
      (if w \<notin> set W \<and> max_weeks wpm \<le> int (length W)
       then Inr (ineligible ''Monthly week limit exceeded'')
       else Inr \<lparr>eligible = True, reason = None\<rparr>)"
    unfolding weeksPerMonthCheck_def Let_def by (simp add: assms(4,5) bind_js_def)
  show ?thesis
    unfolding eligibility_unfold [OF assms(1)]
    using already_assigned_occupied [of as ltId d]
    by (auto simp: assms(2,3) wc bind_js_def ineligible_def)
qed


section \<open>The calendar grid\<close>

text \<open>
  The loop of \<^verbatim>\<open>calendarDays\<close>, started at the local midnight of day \<open>S\<close> on a host at or
  west of UTC: cell \<open>i\<close> carries the date string of day \<open>S + i\<close> and is flagged when that
  day lies in the month \<open>month\<close>. Nothing is thrown as long as the days stay within the
  years 0 to 9999.
\<close>

lemma canon_day_interval:
  assumes "canon_day S" "canon_day E" "S \<le> X" "X \<le> E"
  shows "canon_day X"
  using assms by (simp add: canon_day_def)

lemma valid_date_iso_date: "canon_day D \<Longrightarrow> valid_date (iso_date D)"
  using canon_day_year [of D] parse_iso_date [of D] by (simp add: valid_date_def)

lemma eligible_filter_ok:
  assumes "valid_date s" "list_all (\<lambda>a. valid_date (date a)) as" "\<bar>tza\<bar> \<le> msPerDay"
  shows "\<exists>els. eligible_filter tza now lts as s xs = Inr els"
proof (induction xs)
  case Nil
  show ?case by simp
next
  case (Cons lt xs)
  from isLeaveEligibleForDate_ok [OF assms] obtain r where
    "isLeaveEligibleForDate tza now lts as (id_lt lt) s = Inr r" ..
  with Cons.IH show ?case by (auto simp: bind_js_Inr)
qed

lemma cells_from_day:
  "map (\<lambda>i. f (S + int i)) [0..<Suc n] = f S # map (\<lambda>i. f (S + 1 + int i)) [0..<n]"
proof -
  have sh: "\<And>i. S + int (Suc i) = S + 1 + int i" by simp
  have "[0..<Suc n] = 0 # map Suc [0..<n]"
    by (simp add: upt_conv_Cons map_Suc_upt del: upt_Suc)
  then have "map (\<lambda>i. f (S + int i)) [0..<Suc n] =
      f (S + int 0) # map (\<lambda>i. f (S + int (Suc i))) [0..<n]"
    by (simp add: comp_def del: upt_Suc of_nat_Suc)
  also have "\<dots> = f S # map (\<lambda>i. f (S + 1 + int i)) [0..<n]"
    by (simp only: sh of_nat_0 add_0_right)
  finally show ?thesis .
qed

lemma calendarLoop_step:
  assumes "formatDate (Time_Value t) = Inr s"
    and "eligible_filter tza now lts as s lts = Inr els"
    and "setDate tza t (getDate tza t + 1) = Time_Value t'"
    and "calendarLoop tza now lts as month n (Time_Value t') = Inr days"
  shows "\<exists>d. calendarLoop tza now lts as month (Suc n) (Time_Value t) = Inr (d # days)
      \<and> date_di d = s \<and> isCurrentMonth d = (getMonth tza t = month)"
  using assms by (simp add: bind_js_Inr Let_def)

lemma setDate_next_day:
  assumes "- msPerDay < tza" "tza \<le> 0" "canon_day (S + 1)"
  shows "setDate tza (local_midnight tza S) (getDate tza (local_midnight tza S) + 1) =
      Time_Value (local_midnight tza (S + 1))"
proof -
  have tz: "\<bar>tza\<bar> \<le> msPerDay" using assms(1,2) by simp
  show ?thesis
    using canon_day_abs [OF assms(3)] TimeClip_local [of "S + 1" tza] tz
    by (simp add: setDate_local getters_local)
qed

lemma calendarLoop_local:
  assumes "- msPerDay < tza" "tza \<le> 0" "list_all (\<lambda>a. valid_date (date a)) as"
  shows "canon_day S \<Longrightarrow> canon_day (S + int n) \<Longrightarrow>
    \<exists>days. calendarLoop tza now lts as month n (Time_Value (local_midnight tza S)) = Inr days
      \<and> map date_di days = map (\<lambda>i. iso_date (S + int i)) [0..<n]
      \<and> map isCurrentMonth days = map (\<lambda>i. MonthFromDay (S + int i) = month) [0..<n]"
proof (induction n arbitrary: S)
  case 0
  show ?case by simp
next
  case (Suc n)
  have tz: "\<bar>tza\<bar> \<le> msPerDay" using assms(1,2) by simp
  have fmt: "formatDate (Time_Value (local_midnight tza S)) = Inr (iso_date S)"
    using assms(1,2) by (rule formatDate_west)
  have "valid_date (iso_date S)"
    using Suc.prems(1) by (rule valid_date_iso_date)
  from eligible_filter_ok [OF this assms(3) tz] obtain els where
    els: "eligible_filter tza now lts as (iso_date S) lts = Inr els" ..
  have le: "S \<le> S + 1" "S + 1 \<le> S + int (Suc n)" by simp_all
  have c1: "canon_day (S + 1)"
    using Suc.prems(1) Suc.prems(2) le by (rule canon_day_interval)
  have eq: "S + int (Suc n) = S + 1 + int n" by simp
  have c2: "canon_day (S + 1 + int n)"
    using Suc.prems(2) unfolding eq .
  have nxt: "setDate tza (local_midnight tza S) (getDate tza (local_midnight tza S) + 1) =
      Time_Value (local_midnight tza (S + 1))"
    using assms(1,2) c1 by (rule setDate_next_day)
  from Suc.IH [OF c1 c2] obtain days where
    days: "calendarLoop tza now lts as month n (Time_Value (local_midnight tza (S + 1))) = Inr days"
      and d2: "map date_di days = map (\<lambda>i. iso_date (S + 1 + int i)) [0..<n]"
      and d3: "map isCurrentMonth days = map (\<lambda>i. MonthFromDay (S + 1 + int i) = month) [0..<n]"
    by blast
  from calendarLoop_step [OF fmt els nxt days] obtain d where
    d: "calendarLoop tza now lts as month (Suc n) (Time_Value (local_midnight tza S)) = Inr (d # days)"
      "date_di d = iso_date S" "isCurrentMonth d = (getMonth tza (local_midnight tza S) = month)"
    by blast
  have gm: "getMonth tza (local_midnight tza S) = MonthFromDay S"
    using tz by (simp add: getters_local)
  have m2: "map date_di (d # days) = map (\<lambda>i. iso_date (S + int i)) [0..<Suc n]"
    unfolding cells_from_day [of iso_date S n] using d(2) d2 by (simp only: list.map)
  have m3: "map isCurrentMonth (d # days) = map (\<lambda>i. MonthFromDay (S + int i) = month) [0..<Suc n]"
    unfolding cells_from_day [of "\<lambda>x. MonthFromDay x = month" S n] using d(3) d3 gm
    by (simp only: list.map)
  from d(1) m2 m3 show ?case by blast
qed



text \<open>
  The first day of the month of the reference date, for a reference date in the years
  100 to 9998 (\<^verbatim>\<open>new Date(year, month, 1)\<close> reads a year 0 to 99 as 1900 + year).
\<close>

lemma DayFromYear_9999: "DayFromYear 9999 = 2932532"
  by (simp add: DayFromYear_def)

lemma first_of_month_facts:
  assumes "100 \<le> getFullYear tza t" "getFullYear tza t \<le> 9998"
  shows "DayFromYear 100 \<le> first_of_month tza t" "first_of_month tza t < DayFromYear 9999"
    "DateFromDay (first_of_month tza t) = 1"
    "0 \<le> getMonth tza t" "getMonth tza t \<le> 11"
    "28 \<le> days_in_month_of tza t" "days_in_month_of tza t \<le> 31"
proof -
  let ?y = "getFullYear tza t" and ?m = "getMonth tza t"
  have m: "0 \<le> ?m" "?m \<le> 11"
    using MonthFromDay_range [of "Day (t + tza)"] by (simp_all add: getMonth_def)
  have len: "28 \<le> DaysInMonth ?y ?m" "DaysInMonth ?y ?m \<le> 31"
    using DaysInMonth_range [OF m, of ?y] by simp_all
  have one: "(1::int) \<le> 1" by simp
  have le: "1 \<le> DaysInMonth ?y ?m" using len(1) by simp
  from MakeDay_inverse [OF m one le]
  have inv: "YearFromDay (first_of_month tza t) = ?y" "DateFromDay (first_of_month tza t) = 1"
    by (simp_all add: first_of_month_def)
  have "?y \<le> YearFromDay (first_of_month tza t)" "YearFromDay (first_of_month tza t) < ?y + 1"
    using inv(1) by simp_all
  from day_range [OF this]
  have r: "DayFromYear ?y \<le> first_of_month tza t" "first_of_month tza t < DayFromYear (?y + 1)"
    by simp_all
  have "DayFromYear 100 \<le> DayFromYear ?y" using assms(1) by (rule DayFromYear_mono)
  with r(1) show "DayFromYear 100 \<le> first_of_month tza t" by simp
  have "?y + 1 \<le> 9999" using assms(2) by simp
  then have "DayFromYear (?y + 1) \<le> DayFromYear 9999" by (rule DayFromYear_mono)
  with r(2) show "first_of_month tza t < DayFromYear 9999" by simp
  show "DateFromDay (first_of_month tza t) = 1" by (rule inv(2))
  show "0 \<le> ?m" "?m \<le> 11" by (rule m)+
  show "28 \<le> days_in_month_of tza t" "days_in_month_of tza t \<le> 31"
    using len by (simp_all add: days_in_month_of_def)
qed

text \<open>
  \<^verbatim>\<open>startDate.setDate(startDate.getDate() - firstDay.getDay() + 1)\<close>: the loop starts on day
  \<open>F + 1 - WeekDay F\<close>, where \<open>F\<close> is the first day of the month.
\<close>

lemma calendarDays_start:
  assumes "- msPerDay < tza" "tza \<le> 0"
    and "100 \<le> getFullYear tza t" "getFullYear tza t \<le> 9998"
  shows "calendarDays tza now lts as (Time_Value t) =
     calendarLoop tza now lts as (getMonth tza t) 42
       (Time_Value (local_midnight tza (first_of_month tza t + 1 - WeekDay (first_of_month tza t))))"
proof -
  let ?F = "first_of_month tza t"
  have tz: "\<bar>tza\<bar> \<le> msPerDay" using assms(1,2) by simp
  note ff = first_of_month_facts [OF assms(3,4)]
  have Fb: "\<bar>?F\<bar> \<le> 4000000"
    using ff(1,2) by (simp add: DayFromYear_100 DayFromYear_9999)
  have first: "Date_ymd tza (getFullYear tza t) (getMonth tza t) 1 = Time_Value (local_midnight tza ?F)"
  proof -
    have "(if 0 \<le> getFullYear tza t \<and> getFullYear tza t \<le> 99 then 1900 + getFullYear tza t
        else getFullYear tza t) = getFullYear tza t"
      using assms(3) by simp
    then show ?thesis
      unfolding Date_ymd_local using TimeClip_local [OF Fb tz]
      by (simp only: first_of_month_def)
  qed
  have w: "0 \<le> WeekDay ?F" "WeekDay ?F \<le> 6" using WeekDay_range [of ?F] by simp_all
  have Sb: "\<bar>?F + 1 - WeekDay ?F\<bar> \<le> 4000000"
    using ff(1,2) w by (simp add: DayFromYear_100 DayFromYear_9999)
  have "setDate tza (local_midnight tza ?F)
          (getDate tza (local_midnight tza ?F) - getDay tza (local_midnight tza ?F) + 1) =
        TimeClip (local_midnight tza (?F - DateFromDay ?F + (DateFromDay ?F - WeekDay ?F + 1)))"
    by (simp only: setDate_local getters_local)
  also have "?F - DateFromDay ?F + (DateFromDay ?F - WeekDay ?F + 1) = ?F + 1 - WeekDay ?F"
    by simp
  also have "TimeClip (local_midnight tza (?F + 1 - WeekDay ?F)) =
      Time_Value (local_midnight tza (?F + 1 - WeekDay ?F))"
    using Sb tz by (rule TimeClip_local)
  finally have start: "setDate tza (local_midnight tza ?F)
          (getDate tza (local_midnight tza ?F) - getDay tza (local_midnight tza ?F) + 1) =
        Time_Value (local_midnight tza (?F + 1 - WeekDay ?F))" .
  show ?thesis
    unfolding calendarDays_def by (simp add: Let_def first start)
qed

text \<open>
  When the month begins on a Sunday, \<open>WeekDay F = 0\<close> and the loop starts on day \<open>F + 1\<close>,
  the Monday after the first day of the month: the grid does not show that first day.
  \<^verbatim>\<open>getWeekStart\<close> has a case for Sunday, \<^verbatim>\<open>calendarDays\<close> has none.
\<close>

lemma calendarDays_sunday_first:
  assumes "- msPerDay < tza" "tza \<le> 0"
    and "100 \<le> getFullYear tza t" "getFullYear tza t \<le> 9998"
    and "WeekDay (first_of_month tza t) = 0"
    and "list_all (\<lambda>a. valid_date (date a)) as"
  shows "\<exists>days. calendarDays tza now lts as (Time_Value t) = Inr days
    \<and> map date_di days = map (\<lambda>i. iso_date (first_of_month tza t + 1 + int i)) [0..<42]"
proof -
  let ?F = "first_of_month tza t"
  note ff = first_of_month_facts [OF assms(3,4)]
  have cS: "canon_day (?F + 1)" "canon_day (?F + 1 + int 42)"
    using ff(1,2) by (simp_all add: canon_day_def DayFromYear_0 DayFromYear_100
        DayFromYear_9999 DayFromYear_10000)
  from calendarLoop_local [OF assms(1,2,6) cS, of now lts "getMonth tza t"] obtain days where
    days: "calendarLoop tza now lts as (getMonth tza t) 42
        (Time_Value (local_midnight tza (?F + 1))) = Inr days"
      and d2: "map date_di days = map (\<lambda>i. iso_date (?F + 1 + int i)) [0..<42]"
    by blast
  have "calendarDays tza now lts as (Time_Value t) = Inr days"
    using calendarDays_start [OF assms(1-4), of now lts as] days by (simp only: assms(5) diff_zero)
  with d2 show ?thesis by blast
qed

section \<open>The claims\<close>

subsection \<open>C1: at most one assignment per date\<close>

text \<open>
  Claim C1. Start from an assignment list with at most one assignment per date and apply any
  sequence of mutations in which \<^verbatim>\<open>assignLeave(date, leaveTypeId)\<close> happens only when
  \<^verbatim>\<open>isLeaveEligibleForDate(leaveTypeId, date)\<close> has returned eligible for the current
  assignment list, and \<^verbatim>\<open>removeAssignment\<close> happens at any time. Then the resulting
  assignment list has at most one assignment per date, whatever the leave types of the
  assignments are.
\<close>

theorem one_assignment_per_date:
  assumes "distinct (map date (assignments st))" and "apply_mutations tza st ms = Some st'"
  shows "distinct (map date (assignments st'))"
  using assms
proof (induction ms arbitrary: st)
  case Nil
  then show ?case by simp
next
  case (Cons m ms)
  from Cons.prems(2) obtain st1 where s1: "apply_mutation tza st m = Some st1"
    and rest: "apply_mutations tza st1 ms = Some st'"
    by (auto split: option.splits)
  have "distinct (map date (assignments st1))"
    using Cons.prems(1) s1 by (rule apply_mutation_distinct)
  then show ?case using rest by (rule Cons.IH)
qed

theorem one_assignment_per_date_witness:
  "distinct (map date (assignments seedState))
   \<and> apply_mutations 0 seedState
        [AssignLeave 0 ''2025-07-07'' ''leave-1'' ''assignment-1'' ''t1'' ''t1'',
         AssignLeave 5 ''2025-07-14'' ''leave-1'' ''assignment-2'' ''t2'' ''t2'',
         RemoveAssignment ''assignment-1''] =
       Some \<lparr>leaveTypes = createSeedLeaveTypes,
             assignments =
               [\<lparr>id_a = ''assignment-2'', date = ''2025-07-14'', leaveTypeId = ''leave-1'',
                 createdAt = ''t2'', updatedAt = ''t2''\<rparr>],
             history =
               [[],
                [\<lparr>id_a = ''assignment-1'', date = ''2025-07-07'', leaveTypeId = ''leave-1'',
                  createdAt = ''t1'', updatedAt = ''t1''\<rparr>],
                [\<lparr>id_a = ''assignment-1'', date = ''2025-07-07'', leaveTypeId = ''leave-1'',
                  createdAt = ''t1'', updatedAt = ''t1''\<rparr>,
                 \<lparr>id_a = ''assignment-2'', date = ''2025-07-14'', leaveTypeId = ''leave-1'',
                  createdAt = ''t2'', updatedAt = ''t2''\<rparr>]],
             selectedDate = None\<rparr>
   \<and> distinct (map date
        (assignments
          \<lparr>leaveTypes = createSeedLeaveTypes,
           assignments =
             [\<lparr>id_a = ''assignment-2'', date = ''2025-07-14'', leaveTypeId = ''leave-1'',
               createdAt = ''t2'', updatedAt = ''t2''\<rparr>],
           history =
             [[],
              [\<lparr>id_a = ''assignment-1'', date = ''2025-07-07'', leaveTypeId = ''leave-1'',
                createdAt = ''t1'', updatedAt = ''t1''\<rparr>],
              [\<lparr>id_a = ''assignment-1'', date = ''2025-07-07'', leaveTypeId = ''leave-1'',
                createdAt = ''t1'', updatedAt = ''t1''\<rparr>,
               \<lparr>id_a = ''assignment-2'', date = ''2025-07-14'', leaveTypeId = ''leave-1'',
                createdAt = ''t2'', updatedAt = ''t2''\<rparr>]],
           selectedDate = None\<rparr>))"
proof -
  have h1: "distinct (map date (assignments seedState))"
    by (simp add: seedState_def)
  have h2: "apply_mutations 0 seedState
        [AssignLeave 0 ''2025-07-07'' ''leave-1'' ''assignment-1'' ''t1'' ''t1'',
         AssignLeave 5 ''2025-07-14'' ''leave-1'' ''assignment-2'' ''t2'' ''t2'',
         RemoveAssignment ''assignment-1''] =
       Some \<lparr>leaveTypes = createSeedLeaveTypes,
             assignments =
               [\<lparr>id_a = ''assignment-2'', date = ''2025-07-14'', leaveTypeId = ''leave-1'',
                 createdAt = ''t2'', updatedAt = ''t2''\<rparr>],
             history =
               [[],
                [\<lparr>id_a = ''assignment-1'', date = ''2025-07-07'', leaveTypeId = ''leave-1'',
                  createdAt = ''t1'', updatedAt = ''t1''\<rparr>],
                [\<lparr>id_a = ''assignment-1'', date = ''2025-07-07'', leaveTypeId = ''leave-1'',
                  createdAt = ''t1'', updatedAt = ''t1''\<rparr>,
                 \<lparr>id_a = ''assignment-2'', date = ''2025-07-14'', leaveTypeId = ''leave-1'',
                  createdAt = ''t2'', updatedAt = ''t2''\<rparr>]],
             selectedDate = None\<rparr>"
    by code_simp
  from one_assignment_per_date [OF h1 h2] h1 h2 show ?thesis
    by (intro conjI)
qed

subsection \<open>C2: the order of the checks\<close>

text \<open>
  Claim C2, as the code has it. For a leave type that is found, the checks are applied in
  the order window, day of week, duplicate of the same leave type, date occupied by any
  assignment, weekly quota, total quota, weeks per month, and the first check that fails
  gives the reason. In particular a date inside the window, that passes the day-of-week
  filter and carries an assignment of another leave type only, gets the reason "Date
  already has another leave assigned", whatever the quotas are.

  As the claim words its last part (any date inside the window that carries another leave
  type's assignment), it does not hold: the day-of-week check comes first, as the claim
  itself lists it.
\<close>

theorem checks_in_fixed_order:
  assumes "find (\<lambda>lt. id_lt lt = ltId) lts = Some C"
  shows
    "(let res = isLeaveEligibleForDate tza now lts as ltId d in
      (\<not> window_ok C d \<longrightarrow> res = Inr (ineligible ''Date outside leave window''))
    \<and> (window_ok C d \<and> \<not> day_ok tza C d \<longrightarrow>
          res = Inr (ineligible ''Day of week not allowed''))
    \<and> (window_ok C d \<and> day_ok tza C d \<and> already_assigned as ltId d \<longrightarrow>
          res = Inr (ineligible ''Already assigned''))
    \<and> (window_ok C d \<and> day_ok tza C d \<and> \<not> already_assigned as ltId d \<and> date_occupied as d \<longrightarrow>
          res = Inr (ineligible ''Date already has another leave assigned''))
    \<and> (window_ok C d \<and> day_ok tza C d \<and> \<not> date_occupied as d \<longrightarrow>
          (\<forall>q. calculateQuotas tza now lts as ltId (Some d) = Inr q \<longrightarrow>
             (weekly_exceeded C q \<longrightarrow> res = Inr (ineligible ''Weekly quota exceeded''))
           \<and> (\<not> weekly_exceeded C q \<and> total_exceeded C q \<longrightarrow>
                 res = Inr (ineligible ''Total quota exceeded''))
           \<and> (\<not> weekly_exceeded C q \<and> \<not> total_exceeded C q \<longrightarrow>
                 res = (case weeks_per_month (quotas (rules C)) of
                          None \<Rightarrow> Inr \<lparr>eligible = True, reason = None\<rparr>
                        | Some wpm \<Rightarrow> weeksPerMonthCheck tza as ltId d wpm)))))"
  unfolding Let_def eligibility_unfold [OF assms]
  using already_assigned_occupied [of as ltId d]
  by (auto simp: bind_js_def)

text \<open>
  The witness is the scenario of the specification: two leave types, the first assigned to
  a day, the second asked for the same day.
\<close>

theorem checks_in_fixed_order_witness:
  "find (\<lambda>lt. id_lt lt = ''leave-2'') createSeedLeaveTypes = Some (createSeedLeaveTypes ! 1)
   \<and> window_ok (createSeedLeaveTypes ! 1) ''2025-07-07''
   \<and> day_ok 0 (createSeedLeaveTypes ! 1) ''2025-07-07''
   \<and> \<not> already_assigned [assignment_on ''2025-07-07'' ''leave-1''] ''leave-2'' ''2025-07-07''
   \<and> date_occupied [assignment_on ''2025-07-07'' ''leave-1''] ''2025-07-07''
   \<and> isLeaveEligibleForDate 0 0 createSeedLeaveTypes [assignment_on ''2025-07-07'' ''leave-1'']
        ''leave-2'' ''2025-07-07'' =
       Inr (ineligible ''Date already has another leave assigned'')"
proof -
  have h: "find (\<lambda>lt. id_lt lt = ''leave-2'') createSeedLeaveTypes = Some (createSeedLeaveTypes ! 1)"
    by code_simp
  have c1: "window_ok (createSeedLeaveTypes ! 1) ''2025-07-07''"
    by code_simp
  have c2: "day_ok 0 (createSeedLeaveTypes ! 1) ''2025-07-07''"
    by code_simp
  have c3: "\<not> already_assigned [assignment_on ''2025-07-07'' ''leave-1''] ''leave-2'' ''2025-07-07''"
    by code_simp
  have c4: "date_occupied [assignment_on ''2025-07-07'' ''leave-1''] ''2025-07-07''"
    by code_simp
  show ?thesis
    using checks_in_fixed_order [OF h, of 0 0 "[assignment_on ''2025-07-07'' ''leave-1'']"
        "''2025-07-07''"] h c1 c2 c3 c4
    by (simp add: Let_def)
qed

text \<open>
  The counterexample: a leave type allowed on Mondays only, with a weekly quota of one day
  that is used up, asked for a Tuesday inside its window that carries another leave type's
  assignment. The reason is the day of the week, not the occupied date.
\<close>

theorem cross_category_reason_counterexample:
  "window_ok
      (example_leave ''leave-1'' (Some [1])
         \<lparr>weekly = Some \<lparr>max_days = 1\<rparr>, weeks_per_month = None, total = None\<rparr>)
      ''2025-07-08''
   \<and> date_occupied
        [assignment_on ''2025-07-07'' ''leave-1'', assignment_on ''2025-07-08'' ''leave-2'']
        ''2025-07-08''
   \<and> \<not> already_assigned
        [assignment_on ''2025-07-07'' ''leave-1'', assignment_on ''2025-07-08'' ''leave-2'']
        ''leave-1'' ''2025-07-08''
   \<and> map_sum (\<lambda>e. e)
        (weekly_exceeded
          (example_leave ''leave-1'' (Some [1])
             \<lparr>weekly = Some \<lparr>max_days = 1\<rparr>, weeks_per_month = None, total = None\<rparr>))
        (calculateQuotas 0 0
          [example_leave ''leave-1'' (Some [1])
             \<lparr>weekly = Some \<lparr>max_days = 1\<rparr>, weeks_per_month = None, total = None\<rparr>,
           example_leave ''leave-2'' None
             \<lparr>weekly = None, weeks_per_month = None, total = None\<rparr>]
          [assignment_on ''2025-07-07'' ''leave-1'', assignment_on ''2025-07-08'' ''leave-2'']
          ''leave-1'' (Some ''2025-07-08'')) = Inr True
   \<and> isLeaveEligibleForDate 0 0
        [example_leave ''leave-1'' (Some [1])
           \<lparr>weekly = Some \<lparr>max_days = 1\<rparr>, weeks_per_month = None, total = None\<rparr>,
         example_leave ''leave-2'' None
           \<lparr>weekly = None, weeks_per_month = None, total = None\<rparr>]
        [assignment_on ''2025-07-07'' ''leave-1'', assignment_on ''2025-07-08'' ''leave-2'']
        ''leave-1'' ''2025-07-08'' =
       Inr \<lparr>eligible = False, reason = Some ''Day of week not allowed''\<rparr>"
  by code_simp

subsection \<open>C3: the weeks-per-month check\<close>

text \<open>
  Claim C3, as the code has it. On a host at or west of UTC, take a leave type with a
  weeks-per-month quota, a target date that is a calendar date of the years 100 to 9999,
  and an assignment list whose dates are calendar dates. The evaluation computes the quota
  counts \<open>q\<close>, and it returns ineligible with "Monthly week limit exceeded" exactly when
  every earlier check passes (window, day of week, no assignment on the date, weekly and
  total quota), the Monday that starts the target date's week is not among the week starts
  of this leave type's assignments in the target date's month, and the number of those
  distinct week starts is at least \<open>max_weeks\<close>. When the target's week start is among
  them the result is never that reason, however many assignments that week holds. A week
  start is the Monday on or before the day.

  The claim says "equals \<open>max_weeks\<close>"; the code compares with \<open>\<ge>\<close>, and blocks as well
  when more weeks are used than the quota allows. East of UTC the strings the code formats
  are a day early (claim C10), and for the years 0 to 99 \<^verbatim>\<open>new Date(year, month, 1)\<close>
  means the years 1900 to 1999; the statement leaves both cases out.
\<close>

theorem weeks_per_month_blocks_iff:
  assumes "- msPerDay < tza" "tza \<le> 0"
    and "find (\<lambda>lt. id_lt lt = ltId) lts = Some C"
    and "weeks_per_month (quotas (rules C)) = Some wpm"
    and "valid_date d" "100 \<le> YearFromDay (day_of d)"
    and "list_all (\<lambda>a. valid_date (date a)) as"
  shows "\<exists>q. calculateQuotas tza now lts as ltId (Some d) = Inr q
    \<and> ((isLeaveEligibleForDate tza now lts as ltId d =
           Inr \<lparr>eligible = False, reason = Some ''Monthly week limit exceeded''\<rparr>) =
        (window_ok C d \<and> day_ok tza C d \<and> \<not> date_occupied as d
          \<and> \<not> weekly_exceeded C q \<and> \<not> total_exceeded C q
          \<and> week_start_day (day_of d) \<notin> weeks_used_in_month as ltId (day_of d)
          \<and> max_weeks wpm \<le> int (card (weeks_used_in_month as ltId (day_of d)))))
    \<and> (week_start_day (day_of d) \<in> weeks_used_in_month as ltId (day_of d) \<longrightarrow>
          isLeaveEligibleForDate tza now lts as ltId d \<noteq>
            Inr \<lparr>eligible = False, reason = Some ''Monthly week limit exceeded''\<rparr>)
    \<and> (\<forall>X. WeekDay (week_start_day X) = 1 \<and> X - 6 \<le> week_start_day X \<and> week_start_day X \<le> X)"
proof -
  have tz: "\<bar>tza\<bar> \<le> msPerDay" using assms(1,2) by simp
  from calculateQuotas_ok [OF assms(5,7) tz] obtain q where
    q: "calculateQuotas tza now lts as ltId (Some d) = Inr q" ..
  from monthlyWeeksUsed_west [OF assms(1,2,5,6,7)] obtain W where
    W: "monthlyWeeksUsed tza as ltId d = Inr W" "distinct W"
      "set W = iso_date ` weeks_used_in_month as ltId (day_of d)"
    by blast
  note w = weekStart_west [OF assms(5,1,2)]
  have cd: "canon_day (day_of d)"
    using valid_date_day_of [OF assms(5) tz] by simp
  have ct: "canon_day (week_start_day (day_of d))"
    using cd assms(6) by (rule week_start_canon)
  have cw: "\<And>X. X \<in> weeks_used_in_month as ltId (day_of d) \<Longrightarrow> canon_day X"
    using weeks_used_canon [OF assms(7,6)] by blast
  have inj: "inj_on iso_date (weeks_used_in_month as ltId (day_of d))"
    by (rule inj_onI) (auto intro: iso_date_inj cw)
  have len: "int (length W) = int (card (weeks_used_in_month as ltId (day_of d)))"
    using distinct_card [OF W(2)] card_image [OF inj] by (simp add: W(3))
  have mem: "(iso_date (week_start_day (day_of d)) \<in> set W) =
      (week_start_day (day_of d) \<in> weeks_used_in_month as ltId (day_of d))"
    unfolding W(3) using iso_date_inj [OF ct] cw by auto
  have iff: "(isLeaveEligibleForDate tza now lts as ltId d =
           Inr \<lparr>eligible = False, reason = Some ''Monthly week limit exceeded''\<rparr>) =
        (window_ok C d \<and> day_ok tza C d \<and> \<not> date_occupied as d
          \<and> \<not> weekly_exceeded C q \<and> \<not> total_exceeded C q
          \<and> week_start_day (day_of d) \<notin> weeks_used_in_month as ltId (day_of d)
          \<and> max_weeks wpm \<le> int (card (weeks_used_in_month as ltId (day_of d))))"
    unfolding weeksPerMonth_computed [OF assms(3,4) q W(1) w] mem len by (rule refl)
  have mon: "\<forall>X. WeekDay (week_start_day X) = 1 \<and> X - 6 \<le> week_start_day X \<and> week_start_day X \<le> X"
    using week_start_day_Monday week_start_day_range by blast
  show ?thesis
    using q iff mon by blast
qed


text \<open>
  The witness is the boundary scenario of the specification: \<open>max_weeks = 2\<close>, two
  assignments in distinct weeks of July 2025, and a target date in a third week.
\<close>

theorem weeks_per_month_blocks_iff_witness:
  "- msPerDay < 0 \<and> (0::int) \<le> 0
   \<and> find (\<lambda>lt. id_lt lt = ''leave-1'')
      [example_leave ''leave-1'' None
         \<lparr>weekly = None, weeks_per_month = Some \<lparr>max_weeks = 2\<rparr>, total = None\<rparr>] =
     Some (example_leave ''leave-1'' None
         \<lparr>weekly = None, weeks_per_month = Some \<lparr>max_weeks = 2\<rparr>, total = None\<rparr>)
   \<and> weeks_per_month (quotas (rules (example_leave ''leave-1'' None
         \<lparr>weekly = None, weeks_per_month = Some \<lparr>max_weeks = 2\<rparr>, total = None\<rparr>))) =
       Some \<lparr>max_weeks = 2\<rparr>
   \<and> valid_date ''2025-07-21'' \<and> 100 \<le> YearFromDay (day_of ''2025-07-21'')
   \<and> list_all (\<lambda>a. valid_date (date a))
        [assignment_on ''2025-07-07'' ''leave-1'', assignment_on ''2025-07-14'' ''leave-1'']
   \<and> week_start_day (day_of ''2025-07-21'') \<notin> weeks_used_in_month
        [assignment_on ''2025-07-07'' ''leave-1'', assignment_on ''2025-07-14'' ''leave-1'']
        ''leave-1'' (day_of ''2025-07-21'')
   \<and> max_weeks \<lparr>max_weeks = 2\<rparr> \<le> int (card (weeks_used_in_month
        [assignment_on ''2025-07-07'' ''leave-1'', assignment_on ''2025-07-14'' ''leave-1'']
        ''leave-1'' (day_of ''2025-07-21'')))
   \<and> isLeaveEligibleForDate 0 0
        [example_leave ''leave-1'' None
           \<lparr>weekly = None, weeks_per_month = Some \<lparr>max_weeks = 2\<rparr>, total = None\<rparr>]
        [assignment_on ''2025-07-07'' ''leave-1'', assignment_on ''2025-07-14'' ''leave-1'']
        ''leave-1'' ''2025-07-21'' =
       Inr \<lparr>eligible = False, reason = Some ''Monthly week limit exceeded''\<rparr>"
proof -
  let ?C = "example_leave ''leave-1'' None
         \<lparr>weekly = None, weeks_per_month = Some \<lparr>max_weeks = 2\<rparr>, total = None\<rparr>"
  let ?as = "[assignment_on ''2025-07-07'' ''leave-1'', assignment_on ''2025-07-14'' ''leave-1'']"
  let ?q = "\<lparr>used = \<lparr>weekly_used = Some 0, weeksThisMonth_used = Some 2, total_used = Some 2\<rparr>,
            remaining = \<lparr>weekly_remaining = Some Infinity,
                         weeksThisMonth_remaining = Some (Num 0),
                         total_remaining = Some Infinity\<rparr>\<rparr>"
  have z1: "- msPerDay < 0" by (simp add: msPerDay_def)
  have z2: "(0::int) \<le> 0" by simp
  have h1: "find (\<lambda>lt. id_lt lt = ''leave-1'') [?C] = Some ?C"
    by code_simp
  have h2: "weeks_per_month (quotas (rules ?C)) = Some \<lparr>max_weeks = 2\<rparr>"
    by code_simp
  have h3: "valid_date ''2025-07-21''" by code_simp
  have h4: "100 \<le> YearFromDay (day_of ''2025-07-21'')" by code_simp
  have h5: "list_all (\<lambda>a. valid_date (date a)) ?as" by code_simp
  have q: "calculateQuotas 0 0 [?C] ?as ''leave-1'' (Some ''2025-07-21'') = Inr ?q"
    by code_simp
  have c: "window_ok ?C ''2025-07-21'' \<and> day_ok 0 ?C ''2025-07-21''
      \<and> \<not> date_occupied ?as ''2025-07-21'' \<and> \<not> weekly_exceeded ?C ?q \<and> \<not> total_exceeded ?C ?q"
    by code_simp
  have s1: "week_start_day (day_of ''2025-07-21'') \<notin> weeks_used_in_month ?as ''leave-1''
      (day_of ''2025-07-21'')"
    by code_simp
  have s2: "max_weeks \<lparr>max_weeks = 2\<rparr> \<le> int (card (weeks_used_in_month ?as ''leave-1''
      (day_of ''2025-07-21'')))"
    by code_simp
  from weeks_per_month_blocks_iff [OF z1 z2 h1 h2 h3 h4 h5, of 0]
  have "isLeaveEligibleForDate 0 0 [?C] ?as ''leave-1'' ''2025-07-21'' =
       Inr \<lparr>eligible = False, reason = Some ''Monthly week limit exceeded''\<rparr>"
    using q c s1 s2 by auto
  with z1 z2 h1 h2 h3 h4 h5 s1 s2 show ?thesis by (intro conjI)
qed

text \<open>
  The counterexample: \<open>max_weeks = 1\<close> (lowered after two weeks of July 2025 were already
  used), and a target date in a third week. Two weeks are used, which does not equal
  \<open>max_weeks\<close>, and the evaluation blocks with "Monthly week limit exceeded".
\<close>

theorem weeks_per_month_equals_counterexample:
  "monthlyWeeksUsed 0
      [assignment_on ''2025-07-07'' ''leave-1'', assignment_on ''2025-07-14'' ''leave-1'']
      ''leave-1'' ''2025-07-21'' = Inr [''2025-07-07'', ''2025-07-14'']
   \<and> formatDate (getWeekStart 0 (parseDate 0 ''2025-07-21'')) = Inr ''2025-07-21''
   \<and> int (length [''2025-07-07'', ''2025-07-14'']) \<noteq> max_weeks \<lparr>max_weeks = 1\<rparr>
   \<and> isLeaveEligibleForDate 0 0
        [example_leave ''leave-1'' None
           \<lparr>weekly = None, weeks_per_month = Some \<lparr>max_weeks = 1\<rparr>, total = None\<rparr>]
        [assignment_on ''2025-07-07'' ''leave-1'', assignment_on ''2025-07-14'' ''leave-1'']
        ''leave-1'' ''2025-07-21'' =
       Inr \<lparr>eligible = False, reason = Some ''Monthly week limit exceeded''\<rparr>"
  by code_simp

subsection \<open>C4: the calendar grid\<close>





subsection \<open>C5: dates outside the window\<close>

text \<open>
  Claim C5, as the code has it. For every leave type \<open>C\<close> (found by its id), every date
  string that is below the window's start or above its end in the order of strings, and
  every assignment list, the evaluation returns ineligible, and the reason is the string
  "Date outside leave window".

  The claim gives the reason as "outside leave window"; the string the code returns, and
  the user interface shows as it is, differs from it.
\<close>

theorem outside_window_ineligible:
  assumes "find (\<lambda>lt. id_lt lt = ltId) lts = Some C"
    and "d < window_start (date_window (rules C)) \<or> window_end (date_window (rules C)) < d"
  shows "isLeaveEligibleForDate tza now lts as ltId d =
           Inr \<lparr>eligible = False, reason = Some ''Date outside leave window''\<rparr>"
proof -
  have "\<not> window_ok C d"
    using assms(2) by (auto simp: window_ok_def isDateInRange_def)
  then show ?thesis
    by (simp add: eligibility_unfold [OF assms(1)] ineligible_def)
qed

theorem outside_window_ineligible_witness:
  "find (\<lambda>lt. id_lt lt = ''leave-1'') createSeedLeaveTypes = Some (createSeedLeaveTypes ! 0)
   \<and> ''2025-07-02'' < window_start (date_window (rules (createSeedLeaveTypes ! 0)))
   \<and> isLeaveEligibleForDate 0 0 createSeedLeaveTypes [] ''leave-1'' ''2025-07-02'' =
       Inr \<lparr>eligible = False, reason = Some ''Date outside leave window''\<rparr>"
proof -
  have h: "find (\<lambda>lt. id_lt lt = ''leave-1'') createSeedLeaveTypes = Some (createSeedLeaveTypes ! 0)"
    by code_simp
  have c: "''2025-07-02'' < window_start (date_window (rules (createSeedLeaveTypes ! 0)))"
    by code_simp
  show ?thesis
    using outside_window_ineligible [OF h disjI1 [OF c], of 0 0 "[]"] h c
    by (intro conjI)
qed

theorem window_reason_text_counterexample:
  "''2025-07-02'' < window_start (date_window (rules (createSeedLeaveTypes ! 0)))
   \<and> isLeaveEligibleForDate 0 0 createSeedLeaveTypes [] ''leave-1'' ''2025-07-02'' =
       Inr \<lparr>eligible = False, reason = Some ''Date outside leave window''\<rparr>
   \<and> isLeaveEligibleForDate 0 0 createSeedLeaveTypes [] ''leave-1'' ''2025-07-02'' \<noteq>
       Inr \<lparr>eligible = False, reason = Some ''outside leave window''\<rparr>"
  by code_simp

subsection \<open>C6: quotas count the leave type's own assignments only\<close>

text \<open>
  Claim C6. The quota calculation for a leave type over an assignment list equals the
  calculation over the sublist of the assignments of that leave type; so inserting or
  removing an assignment of another leave type changes no used or remaining count.
\<close>

theorem quotas_only_count_own_category:
  "calculateQuotas tza now lts as ltId td =
     calculateQuotas tza now lts (filter (\<lambda>a. leaveTypeId a = ltId) as) ltId td
   \<and> (\<forall>(b::Assignment) as1 as2. leaveTypeId b \<noteq> ltId \<longrightarrow>
         calculateQuotas tza now lts (as1 @ b # as2) ltId td =
           calculateQuotas tza now lts (as1 @ as2) ltId td)"
proof (intro conjI allI impI)
  show "calculateQuotas tza now lts as ltId td =
     calculateQuotas tza now lts (filter (\<lambda>a. leaveTypeId a = ltId) as) ltId td"
    by (rule calculateQuotas_own)
next
  fix b :: Assignment and as1 as2
  assume "leaveTypeId b \<noteq> ltId"
  then have "filter (\<lambda>a. leaveTypeId a = ltId) (as1 @ b # as2) =
      filter (\<lambda>a. leaveTypeId a = ltId) (as1 @ as2)"
    by simp
  then show "calculateQuotas tza now lts (as1 @ b # as2) ltId td =
      calculateQuotas tza now lts (as1 @ as2) ltId td"
    using calculateQuotas_own [of tza now lts "as1 @ b # as2" ltId td]
      calculateQuotas_own [of tza now lts "as1 @ as2" ltId td]
    by simp
qed

theorem quotas_only_count_own_category_witness:
  "leaveTypeId (assignment_on ''2025-07-08'' ''leave-2'') \<noteq> ''leave-1''
   \<and> calculateQuotas 0 0 createSeedLeaveTypes
        ([assignment_on ''2025-07-07'' ''leave-1''] @ assignment_on ''2025-07-08'' ''leave-2'' # [])
        ''leave-1'' (Some ''2025-07-09'') =
       calculateQuotas 0 0 createSeedLeaveTypes
        ([assignment_on ''2025-07-07'' ''leave-1''] @ []) ''leave-1'' (Some ''2025-07-09'')"
proof -
  have h: "leaveTypeId (assignment_on ''2025-07-08'' ''leave-2'') \<noteq> ''leave-1''"
    by (simp add: assignment_on_def)
  from quotas_only_count_own_category
    [of 0 0 createSeedLeaveTypes "[]" "''leave-1''" "Some ''2025-07-09''"]
  have "leaveTypeId (assignment_on ''2025-07-08'' ''leave-2'') \<noteq> ''leave-1'' \<longrightarrow>
      calculateQuotas 0 0 createSeedLeaveTypes
        ([assignment_on ''2025-07-07'' ''leave-1''] @ assignment_on ''2025-07-08'' ''leave-2'' # [])
        ''leave-1'' (Some ''2025-07-09'') =
      calculateQuotas 0 0 createSeedLeaveTypes
        ([assignment_on ''2025-07-07'' ''leave-1''] @ []) ''leave-1'' (Some ''2025-07-09'')"
    by blast
  with h show ?thesis by blast
qed

subsection \<open>C7: a quota that is not configured\<close>

text \<open>
  Claim C7. For a leave type on which a quota dimension (weekly, total, weeks per month) is
  not configured, every result of the quota calculation has \<^verbatim>\<open>Infinity\<close> as that
  dimension's remaining value, and the eligibility evaluation never returns that dimension's
  reason, for any date and assignment list.
\<close>

theorem absent_quota_never_blocks:
  assumes "find (\<lambda>lt. id_lt lt = ltId) lts = Some C"
  shows "(weekly (quotas (rules C)) = None \<longrightarrow>
            (\<forall>q. calculateQuotas tza now lts as ltId td = Inr q \<longrightarrow>
                   weekly_remaining (remaining q) = Some Infinity)
            \<and> isLeaveEligibleForDate tza now lts as ltId d \<noteq>
                Inr (ineligible ''Weekly quota exceeded''))
       \<and> (total (quotas (rules C)) = None \<longrightarrow>
            (\<forall>q. calculateQuotas tza now lts as ltId td = Inr q \<longrightarrow>
                   total_remaining (remaining q) = Some Infinity)
            \<and> isLeaveEligibleForDate tza now lts as ltId d \<noteq>
                Inr (ineligible ''Total quota exceeded''))
       \<and> (weeks_per_month (quotas (rules C)) = None \<longrightarrow>
            (\<forall>q. calculateQuotas tza now lts as ltId td = Inr q \<longrightarrow>
                   weeksThisMonth_remaining (remaining q) = Some Infinity)
            \<and> isLeaveEligibleForDate tza now lts as ltId d \<noteq>
                Inr (ineligible ''Monthly week limit exceeded''))"
proof (intro conjI impI allI)
  fix q assume "weekly (quotas (rules C)) = None" "calculateQuotas tza now lts as ltId td = Inr q"
  then show "weekly_remaining (remaining q) = Some Infinity"
    using calculateQuotas_remaining [OF assms] by blast
next
  fix q assume "total (quotas (rules C)) = None" "calculateQuotas tza now lts as ltId td = Inr q"
  then show "total_remaining (remaining q) = Some Infinity"
    using calculateQuotas_remaining [OF assms] by blast
next
  fix q assume "weeks_per_month (quotas (rules C)) = None"
    "calculateQuotas tza now lts as ltId td = Inr q"
  then show "weeksThisMonth_remaining (remaining q) = Some Infinity"
    using calculateQuotas_remaining [OF assms] by blast
next
  assume "weekly (quotas (rules C)) = None"
  then show "isLeaveEligibleForDate tza now lts as ltId d \<noteq>
      Inr (ineligible ''Weekly quota exceeded'')"
    unfolding eligibility_unfold [OF assms] bind_js_def
    by (auto simp: ineligible_def weekly_exceeded_def
        split: sum.splits option.splits dest!: weeksPerMonthCheck_results)
next
  assume "total (quotas (rules C)) = None"
  then show "isLeaveEligibleForDate tza now lts as ltId d \<noteq>
      Inr (ineligible ''Total quota exceeded'')"
    unfolding eligibility_unfold [OF assms] bind_js_def
    by (auto simp: ineligible_def total_exceeded_def
        split: sum.splits option.splits dest!: weeksPerMonthCheck_results)
next
  assume "weeks_per_month (quotas (rules C)) = None"
  then show "isLeaveEligibleForDate tza now lts as ltId d \<noteq>
      Inr (ineligible ''Monthly week limit exceeded'')"
    unfolding eligibility_unfold [OF assms] bind_js_def
    by (auto simp: ineligible_def split: sum.splits)
qed

text \<open>
  The witness: a leave type without any quota and with two assignments in the week of the
  target date. All remaining values are \<^verbatim>\<open>Infinity\<close> and the date is eligible.
\<close>

theorem absent_quota_never_blocks_witness:
  "find (\<lambda>lt. id_lt lt = ''leave-1'')
      [example_leave ''leave-1'' None \<lparr>weekly = None, weeks_per_month = None, total = None\<rparr>] =
     Some (example_leave ''leave-1'' None \<lparr>weekly = None, weeks_per_month = None, total = None\<rparr>)
   \<and> weekly (quotas (rules
        (example_leave ''leave-1'' None \<lparr>weekly = None, weeks_per_month = None, total = None\<rparr>))) =
       None
   \<and> calculateQuotas 0 0
        [example_leave ''leave-1'' None \<lparr>weekly = None, weeks_per_month = None, total = None\<rparr>]
        [assignment_on ''2025-07-07'' ''leave-1'', assignment_on ''2025-07-08'' ''leave-1'']
        ''leave-1'' (Some ''2025-07-09'') =
       Inr \<lparr>used = \<lparr>weekly_used = Some 2, weeksThisMonth_used = Some 1, total_used = Some 2\<rparr>,
            remaining = \<lparr>weekly_remaining = Some Infinity,
                         weeksThisMonth_remaining = Some Infinity,
                         total_remaining = Some Infinity\<rparr>\<rparr>
   \<and> weekly_remaining (remaining
        \<lparr>used = \<lparr>weekly_used = Some 2, weeksThisMonth_used = Some 1, total_used = Some 2\<rparr>,
         remaining = \<lparr>weekly_remaining = Some Infinity,
                      weeksThisMonth_remaining = Some Infinity,
                      total_remaining = Some Infinity\<rparr>\<rparr>) = Some Infinity
   \<and> isLeaveEligibleForDate 0 0
        [example_leave ''leave-1'' None \<lparr>weekly = None, weeks_per_month = None, total = None\<rparr>]
        [assignment_on ''2025-07-07'' ''leave-1'', assignment_on ''2025-07-08'' ''leave-1'']
        ''leave-1'' ''2025-07-09'' \<noteq> Inr (ineligible ''Weekly quota exceeded'')
   \<and> isLeaveEligibleForDate 0 0
        [example_leave ''leave-1'' None \<lparr>weekly = None, weeks_per_month = None, total = None\<rparr>]
        [assignment_on ''2025-07-07'' ''leave-1'', assignment_on ''2025-07-08'' ''leave-1'']
        ''leave-1'' ''2025-07-09'' = Inr \<lparr>eligible = True, reason = None\<rparr>"
proof -
  let ?C = "example_leave ''leave-1'' None \<lparr>weekly = None, weeks_per_month = None, total = None\<rparr>"
  let ?as = "[assignment_on ''2025-07-07'' ''leave-1'', assignment_on ''2025-07-08'' ''leave-1'']"
  have h: "find (\<lambda>lt. id_lt lt = ''leave-1'') [?C] = Some ?C"
    by code_simp
  have n: "weekly (quotas (rules ?C)) = None"
    by code_simp
  have q: "calculateQuotas 0 0 [?C] ?as ''leave-1'' (Some ''2025-07-09'') =
       Inr \<lparr>used = \<lparr>weekly_used = Some 2, weeksThisMonth_used = Some 1, total_used = Some 2\<rparr>,
            remaining = \<lparr>weekly_remaining = Some Infinity,
                         weeksThisMonth_remaining = Some Infinity,
                         total_remaining = Some Infinity\<rparr>\<rparr>"
    by code_simp
  have e: "isLeaveEligibleForDate 0 0 [?C] ?as ''leave-1'' ''2025-07-09'' =
      Inr \<lparr>eligible = True, reason = None\<rparr>"
    by code_simp
  show ?thesis
    using absent_quota_never_blocks [OF h, of 0 0 ?as "Some ''2025-07-09''" "''2025-07-09''"]
      h n q e
    by simp
qed

subsection \<open>C8: a leave type that is not found\<close>

text \<open>
  Claim C8. For every leave type id that no leave type of the list has, and every date and
  assignment list, the evaluation returns a value (it does not raise): ineligible, with the
  reason "Leave type not found".
\<close>

theorem category_not_found_is_data:
  assumes "ltId \<notin> id_lt ` set lts"
  shows "isLeaveEligibleForDate tza now lts as ltId d =
           Inr \<lparr>eligible = False, reason = Some ''Leave type not found''\<rparr>"
  using find_None_not_in [OF assms]
  by (simp add: isLeaveEligibleForDate_def ineligible_def)

theorem category_not_found_is_data_witness:
  "''leave-3'' \<notin> id_lt ` set createSeedLeaveTypes
   \<and> isLeaveEligibleForDate 0 0 createSeedLeaveTypes [] ''leave-3'' ''2025-07-07'' =
       Inr \<lparr>eligible = False, reason = Some ''Leave type not found''\<rparr>"
proof -
  have h: "''leave-3'' \<notin> id_lt ` set createSeedLeaveTypes"
    by (simp add: createSeedLeaveTypes_def)
  show ?thesis
    using h category_not_found_is_data [OF h, of 0 0 "[]" "''2025-07-07''"]
    by (intro conjI)
qed

subsection \<open>C9: no hidden state\<close>




subsection \<open>C10: a date string, parsed and formatted again\<close>

text \<open>
  Claim C10 says that \<^verbatim>\<open>formatDate(parseDate(s)) = s\<close> for every date string
  \<^verbatim>\<open>YYYY-MM-DD\<close>. \<^verbatim>\<open>parseDate\<close> reads the string as local midnight and
  \<^verbatim>\<open>formatDate\<close> writes the UTC day, so on a host east of UTC (here one hour) the result
  is the day before; on a host at UTC it is the same day.
\<close>

theorem formatDate_parseDate_east_of_UTC:
  "formatDate (parseDate 3600000 ''2025-07-07'') = Inr ''2025-07-06''
   \<and> formatDate (parseDate 0 ''2025-07-07'') = Inr ''2025-07-07''"
  by code_simp

end
